theory Spec2Isabelle
  imports Main "HOL-Library.Sublist" "HOL-Library.Word"
begin

section \<open>Go values\<close>

text \<open>
  A Go \<^verbatim>\<open>string\<close> is a sequence of bytes, so it is a \<^typ>\<open>string\<close> here (a list of
  8-bit characters). A Go \<^verbatim>\<open>error\<close> is observed through its \<^verbatim>\<open>Error()\<close> text only, so it
  is that text. An \<^verbatim>\<open>int64\<close> is a 64-bit word. A \<^verbatim>\<open>float64\<close> is its IEEE-754 bit
  pattern: the source only copies the user fraction and compares it with zero, and
  \<^verbatim>\<open>x != 0\<close> holds for every bit pattern but those of \<^verbatim>\<open>+0\<close> and \<^verbatim>\<open>-0\<close> (it holds for NaN).
\<close>

type_synonym error = string
type_synonym int64 = "64 word"
type_synonym float64 = "64 word"

definition float64_zero :: float64 where
  "float64_zero = 0"

definition float64_ne_zero :: "float64 \<Rightarrow> bool" where
  "float64_ne_zero x = (take_bit 63 x \<noteq> 0)"

section \<open>Package strings\<close>

text \<open>
  \<^verbatim>\<open>strings.TrimSpace\<close> removes the leading and trailing runes for which
  \<^verbatim>\<open>unicode.IsSpace\<close> holds: tab, line feed, vertical tab, form feed, carriage return,
  space, U+0085, U+00A0, U+1680, U+2000 to U+200A, U+2028, U+2029, U+202F, U+205F and
  U+3000. The string is read as UTF-8; a byte sequence that is not the encoding of one of
  these runes decodes to another rune (or to the error rune), which is not a space. So
  trimming removes, at either end, the byte sequences listed in \<open>spaceRunes\<close>.
\<close>

definition asciiSpace :: "char list" where
  "asciiSpace = [CHR 0x09, CHR 0x0A, CHR 0x0B, CHR 0x0C, CHR 0x0D, CHR 0x20]"

definition spaceRunes :: "string list" where
  "spaceRunes = map (\<lambda>c. [c]) asciiSpace @
     [[CHR 0xC2, CHR 0x85], [CHR 0xC2, CHR 0xA0], [CHR 0xE1, CHR 0x9A, CHR 0x80],
      [CHR 0xE2, CHR 0x80, CHR 0x80], [CHR 0xE2, CHR 0x80, CHR 0x81],
      [CHR 0xE2, CHR 0x80, CHR 0x82], [CHR 0xE2, CHR 0x80, CHR 0x83],
      [CHR 0xE2, CHR 0x80, CHR 0x84], [CHR 0xE2, CHR 0x80, CHR 0x85],
      [CHR 0xE2, CHR 0x80, CHR 0x86], [CHR 0xE2, CHR 0x80, CHR 0x87],
      [CHR 0xE2, CHR 0x80, CHR 0x88], [CHR 0xE2, CHR 0x80, CHR 0x89],
      [CHR 0xE2, CHR 0x80, CHR 0x8A], [CHR 0xE2, CHR 0x80, CHR 0xA8],
      [CHR 0xE2, CHR 0x80, CHR 0xA9], [CHR 0xE2, CHR 0x80, CHR 0xAF],
      [CHR 0xE2, CHR 0x81, CHR 0x9F], [CHR 0xE3, CHR 0x80, CHR 0x80]]"

lemma spaceRunes_nonempty: "w \<in> set spaceRunes \<Longrightarrow> w \<noteq> []"
  by (auto simp: spaceRunes_def asciiSpace_def)

function TrimLeftSpace :: "string \<Rightarrow> string" where
  "TrimLeftSpace s =
     (case find (\<lambda>w. prefix w s) spaceRunes of
        None \<Rightarrow> s
      | Some w \<Rightarrow> TrimLeftSpace (drop (length w) s))"
  by pat_completeness auto
termination
proof (relation "measure length")
  show "wf (measure length)" by simp
next
  fix s w
  assume "find (\<lambda>w. prefix w s) spaceRunes = Some w"
  then have "w \<in> set spaceRunes" and "prefix w s"
    by (auto simp: find_Some_iff)
  then have "w \<noteq> []" and "length w \<le> length s"
    by (auto simp: spaceRunes_nonempty prefix_length_le)
  then show "(drop (length w) s, s) \<in> measure length"
    by (cases w) auto
qed

function TrimRightSpace :: "string \<Rightarrow> string" where
  "TrimRightSpace s =
     (case find (\<lambda>w. suffix w s) spaceRunes of
        None \<Rightarrow> s
      | Some w \<Rightarrow> TrimRightSpace (take (length s - length w) s))"
  by pat_completeness auto
termination
proof (relation "measure length")
  show "wf (measure length)" by simp
next
  fix s w
  assume "find (\<lambda>w. suffix w s) spaceRunes = Some w"
  then have "w \<in> set spaceRunes" and "suffix w s"
    by (auto simp: find_Some_iff)
  then have "w \<noteq> []" and "length w \<le> length s"
    by (auto simp: spaceRunes_nonempty suffix_length_le)
  then show "(take (length s - length w) s, s) \<in> measure length"
    by (cases w) auto
qed

declare TrimLeftSpace.simps [simp del] TrimRightSpace.simps [simp del]

definition strings_TrimSpace :: "string \<Rightarrow> string" where
  "strings_TrimSpace s = TrimRightSpace (TrimLeftSpace s)"

text \<open>
  \<^verbatim>\<open>strings.Split(s, sep)\<close> for a separator of one byte, the only use in the source: the
  segments between the separators, one more than there are separators.
\<close>

fun strings_Split :: "string \<Rightarrow> char \<Rightarrow> string list" where
  "strings_Split [] sep = [[]]"
| "strings_Split (c # cs) sep =
     (if c = sep then [] # strings_Split cs sep
      else (case strings_Split cs sep of
              [] \<Rightarrow> [[c]]
            | x # xs \<Rightarrow> (c # x) # xs))"

fun strings_Join :: "string list \<Rightarrow> string \<Rightarrow> string" where
  "strings_Join [] sep = []"
| "strings_Join [x] sep = x"
| "strings_Join (x # y # ys) sep = x @ sep @ strings_Join (y # ys) sep"

definition strings_HasPrefix :: "string \<Rightarrow> string \<Rightarrow> bool" where
  "strings_HasPrefix s pre = prefix pre s"

fun strings_Contains :: "string \<Rightarrow> string \<Rightarrow> bool" where
  "strings_Contains [] substr = (substr = [])"
| "strings_Contains (c # cs) substr =
     (prefix substr (c # cs) \<or> strings_Contains cs substr)"

section \<open>Expansion files\<close>

text \<open>
  \<^verbatim>\<open>expFileInfo\<close> returns the path, the type and an error; the model returns the error or
  the pair of path and type.
\<close>

definition expFileInfo :: "string \<Rightarrow> error + (string \<times> string)" where
  "expFileInfo expFileConfigEntry =
     (let expansionFilePathSplit = strings_Split expFileConfigEntry (CHR '':'') in
      if length expansionFilePathSplit < 2
      then Inl (''malformed expansion file path: '' @ expFileConfigEntry)
      else
        (let expFileType = strings_TrimSpace (expansionFilePathSplit ! 0);
             expFilePth = strings_TrimSpace (strings_Join (drop 1 expansionFilePathSplit) [])
         in Inr (expFilePth, expFileType)))"

definition validateExpansionFileConfig :: "string \<Rightarrow> bool" where
  "validateExpansionFileConfig expFileEntry =
     (let cleanExpFileConfigEntry = strings_TrimSpace expFileEntry in
      strings_HasPrefix cleanExpFileConfigEntry ''main:'' \<or>
      strings_HasPrefix cleanExpFileConfigEntry ''patch:'')"

text \<open>
  The file system and the publishing service are outside the program. \<^verbatim>\<open>os.Open\<close> and the
  upload call are functions of the environment, and \<^verbatim>\<open>uploadExpansionFiles\<close> returns,
  with its error (\<open>None\<close> for \<^verbatim>\<open>nil\<close>), the calls it made to the environment, in order.
  The file handle printed by the first error message is still \<^verbatim>\<open>nil\<close> there. Logging is
  left out.
\<close>

datatype 'f call =
  OsOpen string
| ExpansionfilesUpload string string int64 string 'f

record 'f environment =
  os_Open :: "string \<Rightarrow> error + 'f"
  expansionfiles_Upload_Do :: "string \<Rightarrow> string \<Rightarrow> int64 \<Rightarrow> string \<Rightarrow> 'f \<Rightarrow> error option"

definition uploadExpansionFiles ::
  "'f environment \<Rightarrow> string \<Rightarrow> string \<Rightarrow> string \<Rightarrow> int64 \<Rightarrow> 'f call list \<times> error option" where
  "uploadExpansionFiles service expFileEntry packageName appEditID versionCode =
     (let cleanExpFileConfigEntry = strings_TrimSpace expFileEntry in
      if \<not> validateExpansionFileConfig cleanExpFileConfigEntry
      then ([], Some (''invalid expansion file config: '' @ expFileEntry))
      else
        (case expFileInfo cleanExpFileConfigEntry of
           Inl err \<Rightarrow> ([], Some err)
         | Inr (expFilePth, expFileType) \<Rightarrow>
             (case os_Open service expFilePth of
                Inl err \<Rightarrow>
                  ([OsOpen expFilePth],
                   Some (''failed to read expansion file (<nil>), error: '' @ err))
              | Inr expansionFile \<Rightarrow>
                  (case expansionfiles_Upload_Do service packageName appEditID versionCode
                          expFileType expansionFile of
                     Some err \<Rightarrow>
                       ([OsOpen expFilePth,
                         ExpansionfilesUpload packageName appEditID versionCode expFileType
                           expansionFile],
                        Some (''failed to upload expansion file, error: '' @ err))
                   | None \<Rightarrow>
                       ([OsOpen expFilePth,
                         ExpansionfilesUpload packageName appEditID versionCode expFileType
                           expansionFile],
                        None)))))"

section \<open>Package regexp\<close>

text \<open>
  Regular expressions with the constructs of the source's pattern. \<^verbatim>\<open>FindStringSubmatch\<close>
  returns the leftmost match and, among the matches that start there, the one a
  backtracking search finds first: an alternation tries its left branch first and a
  repetition is greedy. \<open>rmatch\<close> is that search, written with a continuation for the rest
  of the pattern; a repetition only goes round again after an iteration that consumed
  input. A capture group keeps the text of its last iteration.

  The matcher works on bytes. The pattern's literals and classes are ASCII, and \<^verbatim>\<open>.\<close>
  (any rune but a line feed) is only ever left for a \<^verbatim>\<open>-\<close> or for the end of the text,
  which are rune boundaries, so \<open>Dot\<close> is any byte but a line feed.
\<close>

datatype regex =
  Empty
| Class "char \<Rightarrow> bool"
| EndText
| Seq regex regex
| Alt regex regex
| Star regex
| Group nat regex

type_synonym captures = "nat \<Rightarrow> string"

fun rmatch ::
  "regex \<Rightarrow> string \<Rightarrow> captures \<Rightarrow> (string \<Rightarrow> captures \<Rightarrow> 'r option) \<Rightarrow> 'r option" where
  "rmatch Empty s caps k = k s caps"
| "rmatch (Class P) s caps k =
     (case s of [] \<Rightarrow> None | c # cs \<Rightarrow> if P c then k cs caps else None)"
| "rmatch EndText s caps k = (if s = [] then k s caps else None)"
| "rmatch (Seq a b) s caps k = rmatch a s caps (\<lambda>s' caps'. rmatch b s' caps' k)"
| "rmatch (Alt a b) s caps k =
     (case rmatch a s caps k of Some r \<Rightarrow> Some r | None \<Rightarrow> rmatch b s caps k)"
| "rmatch (Star a) s caps k =
     (case rmatch a s caps
             (\<lambda>s' caps'. if length s' < length s then rmatch (Star a) s' caps' k else None) of
        Some r \<Rightarrow> Some r
      | None \<Rightarrow> k s caps)"
| "rmatch (Group n a) s caps k =
     rmatch a s caps (\<lambda>s' caps'. k s' (caps'(n := take (length s - length s') s)))"

fun Lit :: "string \<Rightarrow> regex" where
  "Lit [] = Empty"
| "Lit (c # cs) = Seq (Class (\<lambda>x. x = c)) (Lit cs)"

definition Plus :: "regex \<Rightarrow> regex" where
  "Plus a = Seq a (Star a)"

definition Dot :: regex where
  "Dot = Class (\<lambda>c. c \<noteq> CHR 0x0A)"

definition alnum :: "char \<Rightarrow> bool" where
  "alnum c =
     (let n = (of_char c :: nat) in
      (48 \<le> n \<and> n \<le> 57) \<or> (97 \<le> n \<and> n \<le> 122) \<or> (65 \<le> n \<and> n \<le> 90))"

text \<open>
  \<open>FindStringSubmatch re n s\<close>, for a pattern with \<open>n\<close> groups: the empty list (\<^verbatim>\<open>nil\<close>)
  when nothing matches, otherwise the matched text followed by the text of each group
  (empty for a group that took no part).
\<close>

fun FindStringSubmatch :: "regex \<Rightarrow> nat \<Rightarrow> string \<Rightarrow> string list" where
  "FindStringSubmatch re n s =
     (case rmatch re s (\<lambda>_. [])
             (\<lambda>s' caps. Some (take (length s - length s') s # map caps [1..<Suc n])) of
        Some m \<Rightarrow> m
      | None \<Rightarrow> (case s of [] \<Rightarrow> [] | _ # cs \<Rightarrow> FindStringSubmatch re n cs))"

text \<open>The pattern \<^verbatim>\<open>whatsnew-(?P<locale>([0-9a-zA-Z].*(-|$))+)\<close>, with its three groups.\<close>

definition localePattern :: regex where
  "localePattern =
     Seq (Lit ''whatsnew-'')
       (Group 1 (Plus (Group 2 (Seq (Class alnum) (Seq (Star Dot)
          (Group 3 (Alt (Lit ''-'') EndText)))))))"

section \<open>Package path/filepath\<close>

text \<open>
  \<^verbatim>\<open>filepath.Clean\<close> on a system whose separator is the slash: empty elements and
  \<^verbatim>\<open>.\<close> are dropped, \<^verbatim>\<open>..\<close> removes the element before it (it is dropped at the root and
  kept at the start of a relative path), and the empty result is \<^verbatim>\<open>.\<close>. \<open>cleanElems\<close>
  keeps the elements written so far, last first.
\<close>

fun cleanElems :: "bool \<Rightarrow> string list \<Rightarrow> string list \<Rightarrow> string list" where
  "cleanElems rooted [] out = out"
| "cleanElems rooted (e # es) out =
     cleanElems rooted es
       (if e = [] \<or> e = ''.'' then out
        else if e = ''..'' then
          (case out of
             [] \<Rightarrow> if rooted then [] else [''..'']
           | prev # rest \<Rightarrow> if prev = ''..'' then ''..'' # out else rest)
        else e # out)"

definition filepath_Clean :: "string \<Rightarrow> string" where
  "filepath_Clean path =
     (if path = [] then ''.''
      else
        (let rooted = (hd path = CHR ''/'');
             out = strings_Join (rev (cleanElems rooted (strings_Split path (CHR ''/'')) [])) ''/''
         in if rooted then CHR ''/'' # out else if out = [] then ''.'' else out))"

definition filepath_Join :: "string list \<Rightarrow> string" where
  "filepath_Join elem =
     (case dropWhile (\<lambda>e. e = []) elem of
        [] \<Rightarrow> []
      | es \<Rightarrow> filepath_Clean (strings_Join es ''/''))"

section \<open>Release notes\<close>

text \<open>
  The file system is outside the program: \<^verbatim>\<open>filepath.Glob\<close> and
  \<^verbatim>\<open>fileutil.ReadStringFromFile\<close> are functions of it. A Go map is a map here.
  \<^verbatim>\<open>readLocalisedRecentChanges\<close> returns a map and an error (\<open>None\<close> for \<^verbatim>\<open>nil\<close>); its loop
  over the globbed paths is \<open>readRecentChanges\<close>, which carries the map built so far.
\<close>

record filesystem =
  filepath_Glob :: "string \<Rightarrow> error + string list"
  fileutil_ReadStringFromFile :: "string \<Rightarrow> error + string"

fun readRecentChanges ::
  "filesystem \<Rightarrow> string list \<Rightarrow> (string \<rightharpoonup> string) \<Rightarrow> (string \<rightharpoonup> string) \<times> error option" where
  "readRecentChanges fs [] recentChangesMap = (recentChangesMap, None)"
| "readRecentChanges fs (recentChangesPath # recentChangesPaths) recentChangesMap =
     (let matches = FindStringSubmatch localePattern 3 recentChangesPath in
      if length matches \<ge> 2 then
        (let language = matches ! 1 in
         case fileutil_ReadStringFromFile fs recentChangesPath of
           Inl err \<Rightarrow> (Map.empty, Some err)
         | Inr content \<Rightarrow>
             readRecentChanges fs recentChangesPaths (recentChangesMap(language \<mapsto> content)))
      else readRecentChanges fs recentChangesPaths recentChangesMap)"

definition readLocalisedRecentChanges ::
  "filesystem \<Rightarrow> string \<Rightarrow> (string \<rightharpoonup> string) \<times> error option" where
  "readLocalisedRecentChanges fs recentChangesDir =
     (case filepath_Glob fs (filepath_Join [recentChangesDir, ''whatsnew-*'']) of
        Inl err \<Rightarrow> (Map.empty, Some err)
      | Inr recentChangesPaths \<Rightarrow> readRecentChanges fs recentChangesPaths Map.empty)"

section \<open>Releases\<close>

text \<open>
  Modelled from the spec: the type \<^verbatim>\<open>Configs\<close> is declared outside the source file; these
  are the configuration fields \<^verbatim>\<open>createTrackRelease\<close> reads (status, userFraction,
  updatePriority, releaseName, whatsNewsDir), under the names the source uses.

  \<^verbatim>\<open>TrackRelease\<close> is the publishing library's release descriptor, with the fields the
  source sets. Its release notes are one localized text per entry of the map read from
  the directory, in the order of a Go map iteration, which the language leaves open: the
  field is the map from language to text.
\<close>

record Configs =
  Status :: string
  UpdatePriority :: int64
  UserFraction :: float64
  ReleaseName :: string
  WhatsnewsDir :: string

record TrackRelease =
  VersionCodes :: "int64 list"
  Status :: string
  InAppUpdatePriority :: int64
  UserFraction :: float64
  Name :: string
  ReleaseNotes :: "string \<rightharpoonup> string"

definition releaseStatusCompleted :: string where
  "releaseStatusCompleted = ''completed''"

definition releaseStatusInProgress :: string where
  "releaseStatusInProgress = ''inProgress''"

definition releaseStatusDraft :: string where
  "releaseStatusDraft = ''draft''"

definition releaseStatusHalted :: string where
  "releaseStatusHalted = ''halted''"

definition releaseStatusFromConfig :: "float64 \<Rightarrow> string" where
  "releaseStatusFromConfig userFraction =
     (if float64_ne_zero userFraction then releaseStatusInProgress else releaseStatusCompleted)"

definition shouldApplyUserFraction :: "string \<Rightarrow> bool" where
  "shouldApplyUserFraction status =
     (status = releaseStatusInProgress \<or> status = releaseStatusHalted)"

text \<open>
  \<^verbatim>\<open>updateListing\<close> writes the release notes into the release it is given and returns an
  error; the model returns the error or the release as written.
\<close>

definition updateListing :: "filesystem \<Rightarrow> string \<Rightarrow> TrackRelease \<Rightarrow> error + TrackRelease" where
  "updateListing fs whatsNewsDir release =
     (if whatsNewsDir \<noteq> [] then
        (case readLocalisedRecentChanges fs whatsNewsDir of
           (recentChangesMap, Some err) \<Rightarrow> Inl (''failed to read whatsnews, error: '' @ err)
         | (recentChangesMap, None) \<Rightarrow> Inr (release\<lparr>ReleaseNotes := recentChangesMap\<rparr>))
      else Inr release)"

definition createTrackRelease ::
  "filesystem \<Rightarrow> Configs \<Rightarrow> int64 list \<Rightarrow> error + TrackRelease" where
  "createTrackRelease fs config versionCodes =
     (let newRelease =
            \<lparr>VersionCodes = versionCodes,
             Status = Configs.Status config,
             InAppUpdatePriority = UpdatePriority config,
             UserFraction = float64_zero,
             Name = [],
             ReleaseNotes = Map.empty\<rparr>;
          newRelease =
            (if TrackRelease.Status newRelease = []
             then newRelease\<lparr>Status := releaseStatusFromConfig (Configs.UserFraction config)\<rparr>
             else newRelease);
          newRelease =
            (if shouldApplyUserFraction (TrackRelease.Status newRelease)
             then newRelease\<lparr>UserFraction := Configs.UserFraction config\<rparr>
             else newRelease);
          newRelease =
            (if ReleaseName config \<noteq> []
             then newRelease\<lparr>Name := ReleaseName config\<rparr>
             else newRelease)
      in case updateListing fs (WhatsnewsDir config) newRelease of
           Inl err \<Rightarrow> Inl (''failed to update listing, reason: '' @ err)
         | Inr release \<Rightarrow> Inr release)"

section \<open>Package fmt\<close>

text \<open>
  \<^verbatim>\<open>fmt.Errorf(msg)\<close> takes its argument as a format and is given no operand, so every
  percent sign of the message starts a verb: \<^verbatim>\<open>%%\<close> prints one percent sign, a verb
  prints \<^verbatim>\<open>%!v(MISSING)\<close> (\<^verbatim>\<open>%!v(BADINDEX)\<close> after a bad argument index), a star for
  the width or the precision prints \<^verbatim>\<open>%!(BADWIDTH)\<close> or \<^verbatim>\<open>%!(BADPREC)\<close>, and a format
  that ends inside a verb prints \<^verbatim>\<open>%!(NOVERB)\<close>. The definitions follow the printer's
  loop for an empty operand list: flags, argument index, width, precision, argument
  index, verb. The verb is a rune; a byte sequence that is not valid UTF-8 is printed as
  the replacement rune U+FFFD.
\<close>

definition between :: "nat \<Rightarrow> char \<Rightarrow> nat \<Rightarrow> bool" where
  "between lo c hi = (lo \<le> (of_char c :: nat) \<and> (of_char c :: nat) \<le> hi)"

text \<open>The number of bytes of the UTF-8 encoded rune a string starts with; 0 when there is none.\<close>

fun runeLen :: "string \<Rightarrow> nat" where
  "runeLen [] = 0"
| "runeLen (b0 # bs) =
     (if between 0x00 b0 0x7F then 1
      else if between 0xC2 b0 0xDF then
        (case bs of b1 # _ \<Rightarrow> if between 0x80 b1 0xBF then 2 else 0 | _ \<Rightarrow> 0)
      else if between 0xE0 b0 0xEF then
        (case bs of
           b1 # b2 # _ \<Rightarrow>
             if between (if b0 = CHR 0xE0 then 0xA0 else 0x80) b1
                  (if b0 = CHR 0xED then 0x9F else 0xBF) \<and> between 0x80 b2 0xBF
             then 3 else 0
         | _ \<Rightarrow> 0)
      else if between 0xF0 b0 0xF4 then
        (case bs of
           b1 # b2 # b3 # _ \<Rightarrow>
             if between (if b0 = CHR 0xF0 then 0x90 else 0x80) b1
                  (if b0 = CHR 0xF4 then 0x8F else 0xBF) \<and>
                between 0x80 b2 0xBF \<and> between 0x80 b3 0xBF
             then 4 else 0
         | _ \<Rightarrow> 0)
      else 0)"

definition isDigit :: "char \<Rightarrow> bool" where
  "isDigit c = between 48 c 57"

text \<open>
  \<open>parsenum\<close> reads a decimal number: the number, whether there is one, and how many bytes
  it read; it gives up, having read everything, once the number is past one million.
\<close>

fun parsenum :: "int \<Rightarrow> bool \<Rightarrow> nat \<Rightarrow> string \<Rightarrow> int \<times> bool \<times> nat" where
  "parsenum num isnum newi [] = (num, isnum, newi)"
| "parsenum num isnum newi (c # cs) =
     (if isDigit c then
        (if num > 1000000 then (0, False, newi + length (c # cs))
         else parsenum (num * 10 + (of_char c - 48)) True (Suc newi) cs)
      else (num, isnum, newi))"

text \<open>
  \<open>parseArgNumber\<close>, on a format that starts with an opening bracket: the bytes to skip
  and whether a number stands between the brackets. With no operand no index is in
  range, so \<open>argNumber\<close> always clears \<^verbatim>\<open>goodArgNum\<close> after a bracket; it returns the format
  left, whether an index was found, and \<^verbatim>\<open>goodArgNum\<close>.
\<close>

definition parseArgNumber :: "string \<Rightarrow> nat \<times> bool" where
  "parseArgNumber format =
     (if length format < 3 then (1, False)
      else
        (let inner = takeWhile (\<lambda>c. c \<noteq> CHR '']'') (tl format) in
         if length inner = length (tl format) then (1, False)
         else
           (case parsenum 0 False 0 inner of
              (width, ok, newi) \<Rightarrow>
                if \<not> ok \<or> newi \<noteq> length inner then (length inner + 2, False)
                else (length inner + 2, True))))"

definition argNumber :: "string \<Rightarrow> bool \<Rightarrow> string \<times> bool \<times> bool" where
  "argNumber format goodArgNum =
     (case format of
        [] \<Rightarrow> (format, False, goodArgNum)
      | c # _ \<Rightarrow>
          if c \<noteq> CHR ''['' then (format, False, goodArgNum)
          else (case parseArgNumber format of (wid, ok) \<Rightarrow> (drop wid format, ok, False)))"

definition writeRune :: "string \<Rightarrow> string \<times> nat" where
  "writeRune format =
     (let wid = runeLen format in
      if wid = 0 then ([CHR 0xEF, CHR 0xBF, CHR 0xBD], 1) else (take wid format, wid))"

definition isFlag :: "char \<Rightarrow> bool" where
  "isFlag c = (c \<in> set ''#0+- '')"

text \<open>
  Width and precision: the format left, the text written, \<^verbatim>\<open>afterIndex\<close> and
  \<^verbatim>\<open>goodArgNum\<close>. \<open>verbRune\<close> prints the verb itself and \<open>printVerb\<close> is one round of the
  loop from the byte after the percent sign: the text written and the format left.
\<close>

definition verbWidth :: "string \<Rightarrow> bool \<Rightarrow> bool \<Rightarrow> string \<times> string \<times> bool \<times> bool" where
  "verbWidth format afterIndex goodArgNum =
     (case format of
        [] \<Rightarrow> (format, [], afterIndex, goodArgNum)
      | c # cs \<Rightarrow>
          if c = CHR ''*'' then (cs, ''%!(BADWIDTH)'', False, goodArgNum)
          else
            (case parsenum 0 False 0 format of
               (num, isnum, newi) \<Rightarrow>
                 (drop newi format, [], afterIndex, goodArgNum \<and> \<not> (afterIndex \<and> isnum))))"

definition verbPrecision :: "string \<Rightarrow> bool \<Rightarrow> bool \<Rightarrow> string \<times> string \<times> bool \<times> bool" where
  "verbPrecision format afterIndex goodArgNum =
     (case format of
        [] \<Rightarrow> (format, [], afterIndex, goodArgNum)
      | c # cs \<Rightarrow>
          if c \<noteq> CHR ''.'' then (format, [], afterIndex, goodArgNum)
          else
            (case argNumber cs (goodArgNum \<and> \<not> afterIndex) of
               (g, found, good) \<Rightarrow>
                 (case g of
                    [] \<Rightarrow> (g, [], found, good)
                  | d # ds \<Rightarrow>
                      if d = CHR ''*'' then (ds, ''%!(BADPREC)'', False, good)
                      else
                        (case parsenum 0 False 0 g of
                           (num, isnum, newi) \<Rightarrow> (drop newi g, [], found, good)))))"

definition verbRune :: "string \<Rightarrow> bool \<Rightarrow> string \<times> string" where
  "verbRune format goodArgNum =
     (case format of
        [] \<Rightarrow> (''%!(NOVERB)'', [])
      | c # cs \<Rightarrow>
          (case writeRune format of
             (verb, wid) \<Rightarrow>
               if c = CHR ''%'' then (''%'', drop wid format)
               else if \<not> goodArgNum then (''%!'' @ verb @ ''(BADINDEX)'', drop wid format)
               else (''%!'' @ verb @ ''(MISSING)'', drop wid format)))"

definition printVerb :: "string \<Rightarrow> string \<times> string" where
  "printVerb format =
     (case argNumber (dropWhile isFlag format) True of
        (f2, afterIndex1, good1) \<Rightarrow>
          (case verbWidth f2 afterIndex1 good1 of
             (f3, out1, afterIndex2, good2) \<Rightarrow>
               (case verbPrecision f3 afterIndex2 good2 of
                  (f4, out2, afterIndex3, good3) \<Rightarrow>
                    (case (if afterIndex3 then (f4, True, good3) else argNumber f4 good3) of
                       (f5, afterIndex4, good4) \<Rightarrow>
                         (case verbRune f5 good4 of
                            (out3, left) \<Rightarrow> (out1 @ out2 @ out3, left))))))"

function doPrintf :: "string \<Rightarrow> string" where
  "doPrintf format =
     (case dropWhile (\<lambda>c. c \<noteq> CHR ''%'') format of
        [] \<Rightarrow> format
      | c # cs \<Rightarrow>
          (case printVerb cs of
             (out, left) \<Rightarrow>
               takeWhile (\<lambda>c. c \<noteq> CHR ''%'') format @ out @
               (if length left \<le> length cs then doPrintf left else [])))"
  by pat_completeness auto
termination
proof (relation "measure length")
  show "wf (measure length)" by simp
next
  fix format :: string and c cs out and left :: string
  assume "dropWhile (\<lambda>c. c \<noteq> CHR ''%'') format = c # cs" and "length left \<le> length cs"
  moreover have "length (dropWhile (\<lambda>c. c \<noteq> CHR ''%'') format) \<le> length format"
    by (rule length_dropWhile_le)
  ultimately show "(left, format) \<in> measure length"
    by simp
qed

declare doPrintf.simps [simp del]


definition fmt_Errorf :: "string \<Rightarrow> error" where
  "fmt_Errorf format = doPrintf format"

section \<open>App bundles\<close>

definition bundleInstallationWarning :: string where
  "bundleInstallationWarning =
     ''Error 403: The installation of the app bundle may be too large '' @
     ''and trigger user warning on some devices, and this needs to be explicitly acknowledged in the request.''"

text \<open>
  The upload call of the publishing service is a function of the package name, the edit,
  the file and the acknowledgement flag, and returns the error or the bundle.
  \<^verbatim>\<open>uploadAppBundle\<close> returns the bundle and an error, one of them \<^verbatim>\<open>nil\<close>: the model
  returns the error or the bundle.
\<close>

definition uploadAppBundle ::
  "(string \<Rightarrow> string \<Rightarrow> 'f \<Rightarrow> bool \<Rightarrow> error + 'b) \<Rightarrow> string \<Rightarrow> string \<Rightarrow> 'f \<Rightarrow> bool \<Rightarrow> error + 'b" where
  "uploadAppBundle bundles_Upload_Do packageName appEditID appFile ackBundleInstallationWarning =
     (case bundles_Upload_Do packageName appEditID appFile ackBundleInstallationWarning of
        Inl err \<Rightarrow>
          (let msg = ''failed to upload app bundle, error: '' @ err;
               msg =
                 (if strings_Contains err bundleInstallationWarning
                  then msg @ [CHR 0x0A] @
                    ''To acknowledge this warning, set the Acknowledge Bundle Installation Warning (ack_bundle_installation_warning) input to true.''
                  else msg)
           in Inl (fmt_Errorf msg))
      | Inr bundle \<Rightarrow> Inr bundle)"

section \<open>A directory of files\<close>

text \<open>
  A file system that holds one directory with the given files (name and content, in the
  order of the listing). \<^verbatim>\<open>filepath.Glob\<close> reports each name that matches
  \<^verbatim>\<open>whatsnew-*\<close> joined to the directory, as the library does for a directory without
  pattern characters in its path; any other pattern matches nothing.
\<close>

definition directoryFS :: "string \<Rightarrow> (string \<times> string) list \<Rightarrow> filesystem" where
  "directoryFS dir files =
     \<lparr>filepath_Glob =
        (\<lambda>pattern.
           if pattern = filepath_Join [dir, ''whatsnew-*'']
           then Inr (map (\<lambda>file. filepath_Join [dir, fst file])
                  (filter (\<lambda>file. prefix ''whatsnew-'' (fst file)) files))
           else Inr []),
      fileutil_ReadStringFromFile =
        (\<lambda>path.
           case find (\<lambda>file. filepath_Join [dir, fst file] = path) files of
             Some file \<Rightarrow> Inr (snd file)
           | None \<Rightarrow> Inl (''open '' @ path @ '': no such file or directory''))\<rparr>"

section \<open>Locale tags in paths\<close>

text \<open>
  \<open>localeStart s\<close>: the string starts with \<^verbatim>\<open>whatsnew-\<close> followed by an ASCII letter or digit,
  which is where the pattern can begin to match. \<open>hasLocaleStart s\<close>: such a place occurs
  somewhere in the string. \<open>localeTag tag\<close>: the tag, taken as the rest of a file name after
  \<^verbatim>\<open>whatsnew-\<close>, starts with an ASCII letter or digit and holds no line feed (and no slash,
  being part of a file name).
\<close>

definition localeStart :: "string \<Rightarrow> bool" where
  "localeStart s =
     (prefix ''whatsnew-'' s \<and>
      (case drop (length ''whatsnew-'') s of [] \<Rightarrow> False | c # _ \<Rightarrow> alnum c))"

fun hasLocaleStart :: "string \<Rightarrow> bool" where
  "hasLocaleStart [] = False"
| "hasLocaleStart (c # cs) = (localeStart (c # cs) \<or> hasLocaleStart cs)"

definition localeTag :: "string \<Rightarrow> bool" where
  "localeTag tag =
     ((case tag of [] \<Rightarrow> False | c # _ \<Rightarrow> alnum c) \<and>
      CHR 0x0A \<notin> set tag \<and> CHR ''/'' \<notin> set tag)"

section \<open>Properties of trimming and splitting\<close>

lemma spaceRunes_no_colon: "w \<in> set spaceRunes \<Longrightarrow> CHR '':'' \<notin> set w"
proof -
  have "list_all (\<lambda>w. CHR '':'' \<notin> set w) spaceRunes"
    by (simp add: spaceRunes_def asciiSpace_def)
  then show "w \<in> set spaceRunes \<Longrightarrow> CHR '':'' \<notin> set w"
    by (simp add: list_all_iff)
qed

lemma find_prefix_spaceRunes:
  assumes "w \<in> set spaceRunes"
  shows "find (\<lambda>v. prefix v (w @ y)) spaceRunes = Some w"
proof -
  have "list_all (\<lambda>w. \<forall>y. find (\<lambda>v. prefix v (w @ y)) spaceRunes = Some w) spaceRunes"
    by (simp add: spaceRunes_def asciiSpace_def)
  with assms show ?thesis
    by (simp add: list_all_iff)
qed

lemma find_suffix_spaceRunes:
  assumes "w \<in> set spaceRunes"
  shows "find (\<lambda>v. suffix v (y @ w)) spaceRunes = Some w"
proof -
  have "list_all (\<lambda>w. \<forall>y. find (\<lambda>v. prefix (rev v) (rev w @ y)) spaceRunes = Some w) spaceRunes"
    by (simp add: spaceRunes_def asciiSpace_def)
  with assms have "find (\<lambda>v. prefix (rev v) (rev w @ rev y)) spaceRunes = Some w"
    by (simp add: list_all_iff)
  then show ?thesis
    by (simp add: suffix_to_prefix)
qed

lemma TrimLeftSpace_fixed:
  "find (\<lambda>w. prefix w s) spaceRunes = None \<Longrightarrow> TrimLeftSpace s = s"
  by (subst TrimLeftSpace.simps) simp

lemma TrimRightSpace_fixed:
  "find (\<lambda>w. suffix w s) spaceRunes = None \<Longrightarrow> TrimRightSpace s = s"
  by (subst TrimRightSpace.simps) simp

lemma TrimLeftSpace_rune:
  "w \<in> set spaceRunes \<Longrightarrow> TrimLeftSpace (w @ y) = TrimLeftSpace y"
  by (subst TrimLeftSpace.simps) (simp add: find_prefix_spaceRunes)

lemma TrimRightSpace_rune:
  "w \<in> set spaceRunes \<Longrightarrow> TrimRightSpace (y @ w) = TrimRightSpace y"
  by (subst TrimRightSpace.simps) (simp add: find_suffix_spaceRunes)

lemma TrimLeftSpace_concat:
  "set ws \<subseteq> set spaceRunes \<Longrightarrow> TrimLeftSpace (concat ws @ y) = TrimLeftSpace y"
  by (induction ws) (simp_all add: TrimLeftSpace_rune)

lemma TrimRightSpace_concat:
  "set ws \<subseteq> set spaceRunes \<Longrightarrow> TrimRightSpace (y @ concat ws) = TrimRightSpace y"
proof (induction ws arbitrary: y)
  case Nil
  then show ?case by simp
next
  case (Cons w ws)
  from Cons.prems have ws: "set ws \<subseteq> set spaceRunes" and w: "w \<in> set spaceRunes"
    by simp_all
  from ws have "TrimRightSpace ((y @ w) @ concat ws) = TrimRightSpace (y @ w)"
    by (rule Cons.IH)
  with w show ?case
    by (simp add: TrimRightSpace_rune)
qed

lemma TrimLeftSpace_decomp:
  "\<exists>ws. set ws \<subseteq> set spaceRunes \<and> s = concat ws @ TrimLeftSpace s \<and>
        find (\<lambda>w. prefix w (TrimLeftSpace s)) spaceRunes = None"
proof (induction s rule: TrimLeftSpace.induct)
  case (1 s)
  show ?case
  proof (cases "find (\<lambda>w. prefix w s) spaceRunes")
    case None
    then have "TrimLeftSpace s = s"
      by (rule TrimLeftSpace_fixed)
    with None show ?thesis
      by (intro exI[of _ "[]"]) simp
  next
    case (Some w)
    then have w: "w \<in> set spaceRunes" and "prefix w s"
      by (auto simp: find_Some_iff)
    then have s: "s = w @ drop (length w) s"
      by (auto simp: prefix_def)
    have t: "TrimLeftSpace s = TrimLeftSpace (drop (length w) s)"
      by (subst TrimLeftSpace.simps) (simp add: Some)
    from "1.IH"[OF Some] obtain ws where
      ws: "set ws \<subseteq> set spaceRunes"
        "drop (length w) s = concat ws @ TrimLeftSpace (drop (length w) s)"
        "find (\<lambda>w. prefix w (TrimLeftSpace s)) spaceRunes = None"
      unfolding t by blast
    have "s = concat (w # ws) @ TrimLeftSpace s"
      using s ws(2) unfolding t by simp
    with w ws(1,3) show ?thesis
      by (intro exI[of _ "w # ws"]) simp
  qed
qed

lemma TrimRightSpace_decomp:
  "\<exists>ws. set ws \<subseteq> set spaceRunes \<and> s = TrimRightSpace s @ concat ws \<and>
        find (\<lambda>w. suffix w (TrimRightSpace s)) spaceRunes = None"
proof (induction s rule: TrimRightSpace.induct)
  case (1 s)
  show ?case
  proof (cases "find (\<lambda>w. suffix w s) spaceRunes")
    case None
    then have "TrimRightSpace s = s"
      by (rule TrimRightSpace_fixed)
    with None show ?thesis
      by (intro exI[of _ "[]"]) simp
  next
    case (Some w)
    then have w: "w \<in> set spaceRunes" and "suffix w s"
      by (auto simp: find_Some_iff)
    then have s: "s = take (length s - length w) s @ w"
      by (auto simp: suffix_def)
    have t: "TrimRightSpace s = TrimRightSpace (take (length s - length w) s)"
      by (subst TrimRightSpace.simps) (simp add: Some)
    from "1.IH"[OF Some] obtain ws where
      ws: "set ws \<subseteq> set spaceRunes"
        "take (length s - length w) s =
           TrimRightSpace (take (length s - length w) s) @ concat ws"
        "find (\<lambda>w. suffix w (TrimRightSpace s)) spaceRunes = None"
      unfolding t by blast
    have "s = TrimRightSpace s @ concat (ws @ [w])"
      using s ws(2) unfolding t by (metis append_assoc concat_append concat.simps append_Nil2)
    with w ws(1,3) show ?thesis
      by (intro exI[of _ "ws @ [w]"]) simp
  qed
qed

lemma find_prefix_mono:
  assumes "find (\<lambda>w. prefix w t) spaceRunes = None" and "prefix u t"
  shows "find (\<lambda>w. prefix w u) spaceRunes = None"
  using assms by (auto simp: find_None_iff dest: prefix_order.trans)

lemma strings_TrimSpace_idem: "strings_TrimSpace (strings_TrimSpace s) = strings_TrimSpace s"
proof -
  have l: "find (\<lambda>w. prefix w (TrimLeftSpace s)) spaceRunes = None"
    using TrimLeftSpace_decomp[of s] by blast
  obtain vs where r: "TrimLeftSpace s = TrimRightSpace (TrimLeftSpace s) @ concat vs"
    and f: "find (\<lambda>w. suffix w (TrimRightSpace (TrimLeftSpace s))) spaceRunes = None"
    using TrimRightSpace_decomp[of "TrimLeftSpace s"] by blast
  from r have "prefix (TrimRightSpace (TrimLeftSpace s)) (TrimLeftSpace s)"
    by (metis prefixI)
  with l have "find (\<lambda>w. prefix w (TrimRightSpace (TrimLeftSpace s))) spaceRunes = None"
    by (rule find_prefix_mono)
  then have "TrimLeftSpace (TrimRightSpace (TrimLeftSpace s)) = TrimRightSpace (TrimLeftSpace s)"
    by (rule TrimLeftSpace_fixed)
  with f show ?thesis
    by (simp add: strings_TrimSpace_def TrimRightSpace_fixed)
qed

lemma strings_Split_not_Nil: "strings_Split s c \<noteq> []"
  by (induction s) (auto split: list.splits)

lemma strings_Split_no_sep: "c \<notin> set a \<Longrightarrow> strings_Split a c = [a]"
  by (induction a) auto

lemma strings_Split_sep:
  "c \<notin> set a \<Longrightarrow> strings_Split (a @ c # b) c = a # strings_Split b c"
  by (induction a) auto

lemma concat_strings_Split: "concat (strings_Split s c) = filter (\<lambda>x. x \<noteq> c) s"
  by (induction s) (auto split: list.splits)

lemma strings_Join_Nil: "strings_Join xs [] = concat xs"
  by (induction xs "[] :: string" rule: strings_Join.induct) auto

lemma split_at_first:
  "c \<in> set s \<Longrightarrow> s = takeWhile (\<lambda>x. x \<noteq> c) s @ c # tl (dropWhile (\<lambda>x. x \<noteq> c) s)"
  by (induction s) auto

lemma expFileInfo_no_colon:
  "CHR '':'' \<notin> set s \<Longrightarrow> expFileInfo s = Inl (''malformed expansion file path: '' @ s)"
  by (simp add: expFileInfo_def strings_Split_no_sep)

lemma expFileInfo_colon:
  assumes "CHR '':'' \<notin> set a"
  shows "expFileInfo (a @ CHR '':'' # b) =
           Inr (strings_TrimSpace (filter (\<lambda>x. x \<noteq> CHR '':'') b), strings_TrimSpace a)"
proof -
  have "strings_Split (a @ CHR '':'' # b) (CHR '':'') = a # strings_Split b (CHR '':'')"
    using assms by (rule strings_Split_sep)
  moreover have "strings_Split b (CHR '':'') \<noteq> []"
    by (rule strings_Split_not_Nil)
  ultimately show ?thesis
    by (cases "strings_Split b (CHR '':'')")
       (simp_all add: expFileInfo_def strings_Join_Nil concat_strings_Split [symmetric])
qed

lemma prefix_sep_iff:
  "c \<notin> set w \<Longrightarrow> prefix (w @ [c]) t \<longleftrightarrow> c \<in> set t \<and> takeWhile (\<lambda>x. x \<noteq> c) t = w"
proof
  assume w: "c \<notin> set w" and "prefix (w @ [c]) t"
  then obtain r where "t = w @ c # r"
    by (auto simp: prefix_def)
  moreover have "takeWhile (\<lambda>x. x \<noteq> c) (w @ c # r) = w"
    using w by (induction w) auto
  ultimately show "c \<in> set t \<and> takeWhile (\<lambda>x. x \<noteq> c) t = w"
    by simp
next
  assume "c \<notin> set w" and "c \<in> set t \<and> takeWhile (\<lambda>x. x \<noteq> c) t = w"
  then have "t = w @ c # tl (dropWhile (\<lambda>x. x \<noteq> c) t)"
    using split_at_first[of c t] by simp
  then show "prefix (w @ [c]) t"
    by (metis append_Cons append_Nil append_assoc prefixI)
qed

lemma validateExpansionFileConfig_iff:
  "validateExpansionFileConfig e \<longleftrightarrow>
     CHR '':'' \<in> set (strings_TrimSpace e) \<and>
     (takeWhile (\<lambda>x. x \<noteq> CHR '':'') (strings_TrimSpace e) = ''main'' \<or>
      takeWhile (\<lambda>x. x \<noteq> CHR '':'') (strings_TrimSpace e) = ''patch'')"
proof -
  have m: "prefix ''main:'' t \<longleftrightarrow>
        CHR '':'' \<in> set t \<and> takeWhile (\<lambda>x. x \<noteq> CHR '':'') t = ''main''" for t
    using prefix_sep_iff[of "CHR '':''" "''main''" t] by simp
  have p: "prefix ''patch:'' t \<longleftrightarrow>
        CHR '':'' \<in> set t \<and> takeWhile (\<lambda>x. x \<noteq> CHR '':'') t = ''patch''" for t
    using prefix_sep_iff[of "CHR '':''" "''patch''" t] by simp
  show ?thesis
    unfolding validateExpansionFileConfig_def strings_HasPrefix_def Let_def m p by blast
qed

lemma strings_TrimSpace_main: "strings_TrimSpace ''main'' = ''main''"
  by code_simp

lemma strings_TrimSpace_patch: "strings_TrimSpace ''patch'' = ''patch''"
  by code_simp

lemma strings_TrimSpace_decomp:
  "\<exists>ws vs. set ws \<subseteq> set spaceRunes \<and> set vs \<subseteq> set spaceRunes \<and>
           s = concat ws @ strings_TrimSpace s @ concat vs"
proof -
  obtain ws where ws: "set ws \<subseteq> set spaceRunes" "s = concat ws @ TrimLeftSpace s"
    using TrimLeftSpace_decomp[of s] by blast
  obtain vs where vs: "set vs \<subseteq> set spaceRunes"
      "TrimLeftSpace s = TrimRightSpace (TrimLeftSpace s) @ concat vs"
    using TrimRightSpace_decomp[of "TrimLeftSpace s"] by blast
  from ws(2) vs(2) have "s = concat ws @ strings_TrimSpace s @ concat vs"
    by (simp add: strings_TrimSpace_def)
  with ws(1) vs(1) show ?thesis
    by blast
qed

lemma strings_TrimSpace_leading:
  "set ws \<subseteq> set spaceRunes \<Longrightarrow> strings_TrimSpace (concat ws @ y) = strings_TrimSpace y"
  by (simp add: strings_TrimSpace_def TrimLeftSpace_concat)

lemma concat_spaceRunes_no_colon:
  "set ws \<subseteq> set spaceRunes \<Longrightarrow> CHR '':'' \<notin> set (concat ws)"
  using spaceRunes_no_colon by auto

lemma validated_entry_shape:
  assumes "validateExpansionFileConfig e"
  shows "\<exists>a t b. e = a @ t @ CHR '':'' # b \<and> CHR '':'' \<notin> set a \<and>
           (t = ''main'' \<or> t = ''patch'') \<and> strings_TrimSpace (a @ t) = t"
proof -
  obtain ws vs where ws: "set ws \<subseteq> set spaceRunes"
    and e: "e = concat ws @ strings_TrimSpace e @ concat vs"
    using strings_TrimSpace_decomp[of e] by blast
  from assms have "prefix (''main'' @ [CHR '':'']) (strings_TrimSpace e) \<or>
      prefix (''patch'' @ [CHR '':'']) (strings_TrimSpace e)"
    by (simp add: validateExpansionFileConfig_def strings_HasPrefix_def Let_def)
  then obtain t r where t: "t = ''main'' \<or> t = ''patch''"
    and r: "strings_TrimSpace e = t @ CHR '':'' # r"
    unfolding prefix_def by (metis append_Cons append_Nil append_assoc)
  have "e = concat ws @ t @ CHR '':'' # (r @ concat vs)"
    using e r by simp
  moreover have "CHR '':'' \<notin> set (concat ws)"
    using ws by (rule concat_spaceRunes_no_colon)
  moreover have "strings_TrimSpace (concat ws @ t) = t"
    using t ws by (auto simp: strings_TrimSpace_leading strings_TrimSpace_main strings_TrimSpace_patch)
  ultimately show ?thesis
    using t by blast
qed


lemma expFileInfo_valid_entry:
  assumes "t = ''main'' \<or> t = ''patch''"
  shows "validateExpansionFileConfig (t @ CHR '':'' # p) \<Longrightarrow>
         expFileInfo (t @ CHR '':'' # p) =
           Inr (strings_TrimSpace (filter (\<lambda>x. x \<noteq> CHR '':'') p), t)"
proof -
  from assms have "CHR '':'' \<notin> set t"
    by auto
  then have "expFileInfo (t @ CHR '':'' # p) =
      Inr (strings_TrimSpace (filter (\<lambda>x. x \<noteq> CHR '':'') p), strings_TrimSpace t)"
    by (rule expFileInfo_colon)
  with assms show ?thesis
    by (auto simp: strings_TrimSpace_main strings_TrimSpace_patch)
qed

section \<open>Properties of the matcher\<close>

declare FindStringSubmatch.simps [simp del]

lemma rmatch_Lit:
  "rmatch (Lit w) s caps k = (if prefix w s then k (drop (length w) s) caps else None)"
  by (induction w arbitrary: s) (auto split: list.splits)

lemma localeStart_iff:
  "localeStart s \<longleftrightarrow> (\<exists>c r. s = ''whatsnew-'' @ c # r \<and> alnum c)"
proof
  assume "localeStart s"
  then obtain r where s: "s = ''whatsnew-'' @ r"
    by (auto simp: localeStart_def prefix_def)
  with \<open>localeStart s\<close> show "\<exists>c r. s = ''whatsnew-'' @ c # r \<and> alnum c"
    by (cases r) (auto simp: localeStart_def)
next
  assume "\<exists>c r. s = ''whatsnew-'' @ c # r \<and> alnum c"
  then show "localeStart s"
    by (auto simp: localeStart_def)
qed

lemma rmatch_Star:
  "rmatch (Star a) s caps k =
     (case rmatch a s caps
             (\<lambda>s' caps'. if length s' < length s then rmatch (Star a) s' caps' k else None) of
        Some r \<Rightarrow> Some r
      | None \<Rightarrow> k s caps)"
  by simp

declare rmatch.simps(6) [simp del]

lemma rmatch_locale_group_fail:
  assumes "case s of [] \<Rightarrow> True | c # _ \<Rightarrow> \<not> alnum c"
  shows "rmatch (Group 1 (Plus (Group 2 (Seq (Class alnum) b)))) s caps k = None"
  using assms by (cases s) (simp_all add: Plus_def)

lemma rmatch_localePattern_fail:
  assumes "\<not> localeStart s"
  shows "rmatch localePattern s caps k = None"
proof (cases "prefix ''whatsnew-'' s")
  case False
  then show ?thesis
    unfolding localePattern_def by (simp add: rmatch_Lit del: Lit.simps)
next
  case True
  with assms have "case drop (length ''whatsnew-'') s of [] \<Rightarrow> True | c # _ \<Rightarrow> \<not> alnum c"
    by (auto simp: localeStart_def split: list.splits)
  then have "rmatch (Group 1 (Plus (Group 2 (Seq (Class alnum) (Seq (Star Dot)
          (Group 3 (Alt (Lit ''-'') EndText))))))) (drop (length ''whatsnew-'') s) caps k = None"
    by (rule rmatch_locale_group_fail)
  with True show ?thesis
    unfolding localePattern_def
    by (simp only: rmatch.simps(4) rmatch_Lit if_True)
qed

lemma rmatch_Star_Dot:
  "CHR 0x0A \<notin> set t \<Longrightarrow> k [] caps = Some r \<Longrightarrow> rmatch (Star Dot) t caps k = Some r"
proof (induction t)
  case Nil
  then show ?case
    by (subst rmatch_Star) (simp add: Dot_def)
next
  case (Cons x xs)
  then have "rmatch (Star Dot) xs caps k = Some r"
    by simp
  with Cons.prems show ?case
    by (subst rmatch_Star) (auto simp: Dot_def)
qed

lemma rmatch_Star_Nil:
  fixes k :: "string \<Rightarrow> captures \<Rightarrow> 'r option"
  assumes "rmatch a [] caps (\<lambda>s' caps'. (None :: 'r option)) = None"
  shows "rmatch (Star a) [] caps k = k [] caps"
  by (subst rmatch_Star) (simp add: assms)

lemma rmatch_localePattern_match:
  fixes k :: "string \<Rightarrow> captures \<Rightarrow> 'a option"
  assumes "alnum c" and "CHR 0x0A \<notin> set t"
    and "k [] (caps(3 := [], 2 := c # t, 1 := c # t)) = Some r"
  shows "rmatch localePattern (''whatsnew-'' @ c # t) caps k = Some r"
proof -
  define sep where "sep = Group 3 (Alt (Lit ''-'') EndText)"
  define seg where "seg = Group 2 (Seq (Class alnum) (Seq (Star Dot) sep))"
  define k1 where "k1 = (\<lambda>s' caps'. k s' (caps'(1 := take (length (c # t) - length s') (c # t))))"
  define k2 where "k2 = (\<lambda>s' caps'. rmatch (Star seg) s'
      (caps'(2 := take (length (c # t) - length s') (c # t))) k1)"
  have seg_Nil: "rmatch seg [] caps' (\<lambda>s' caps'. (None :: 'a option)) = None" for caps'
    unfolding seg_def by simp
  have "rmatch sep [] caps k2 = k2 [] (caps(3 := []))"
    unfolding sep_def by simp
  also have "\<dots> = k1 [] (caps(3 := [], 2 := c # t))"
    unfolding k2_def using rmatch_Star_Nil[OF seg_Nil] by simp
  also have "\<dots> = Some r"
    unfolding k1_def using assms(3) by simp
  finally have "(\<lambda>s' caps'. rmatch sep s' caps' k2) [] caps = Some r" .
  with assms(2) have "rmatch (Star Dot) t caps (\<lambda>s' caps'. rmatch sep s' caps' k2) = Some r"
    by (rule rmatch_Star_Dot)
  then have "rmatch seg (c # t) caps (\<lambda>s' caps'. rmatch (Star seg) s' caps' k1) = Some r"
    unfolding seg_def k2_def using assms(1) by simp
  then have "rmatch (Group 1 (Plus seg)) (c # t) caps k = Some r"
    unfolding Plus_def k1_def by simp
  then show ?thesis
    unfolding localePattern_def seg_def sep_def
    by (simp add: rmatch_Lit del: Lit.simps rmatch.simps(7))
qed

lemma FindStringSubmatch_localeStart:
  assumes "alnum c" and "CHR 0x0A \<notin> set t"
  shows "FindStringSubmatch localePattern 3 (''whatsnew-'' @ c # t) =
           [''whatsnew-'' @ c # t, c # t, c # t, []]"
proof -
  let ?s = "''whatsnew-'' @ c # t"
  let ?k = "\<lambda>s' caps. Some (take (length ?s - length s') ?s # map caps [1..<Suc 3])"
  have "?k [] ((\<lambda>_. [])(3 := [], 2 := c # t, 1 := c # t)) = Some [?s, c # t, c # t, []]"
    by (simp add: upt_rec)
  with assms have "rmatch localePattern ?s (\<lambda>_. []) ?k = Some [?s, c # t, c # t, []]"
    by (rule rmatch_localePattern_match)
  then show ?thesis
    by (subst FindStringSubmatch.simps) simp
qed

lemma FindStringSubmatch_skip:
  assumes "\<not> localeStart (x # s)"
  shows "FindStringSubmatch localePattern n (x # s) = FindStringSubmatch localePattern n s"
  by (subst FindStringSubmatch.simps) (simp add: rmatch_localePattern_fail[OF assms])

lemma FindStringSubmatch_none:
  "\<not> hasLocaleStart s \<Longrightarrow> FindStringSubmatch localePattern n s = []"
proof (induction s)
  case Nil
  have "\<not> localeStart []"
    by (simp add: localeStart_def)
  then show ?case
    by (subst FindStringSubmatch.simps) (simp add: rmatch_localePattern_fail)
next
  case (Cons x s)
  then show ?case
    by (simp add: FindStringSubmatch_skip)
qed

section \<open>Properties of paths\<close>

lemma localeStart_append: "localeStart u \<Longrightarrow> localeStart (u @ v)"
  unfolding localeStart_iff by auto

lemma alnum_not_slash: "\<not> alnum (CHR ''/'')"
  by (simp add: alnum_def)

lemma localeStart_before_slash:
  assumes "localeStart (u @ CHR ''/'' # b)"
  shows "localeStart u"
proof -
  from assms obtain c r where eq: "u @ CHR ''/'' # b = (''whatsnew-'' @ [c]) @ r" and c: "alnum c"
    unfolding localeStart_iff by auto
  have len: "length (''whatsnew-'' @ [c]) = 10"
    by simp
  show ?thesis
  proof (cases "length u < 10")
    case True
    have "(u @ CHR ''/'' # b) ! length u = CHR ''/''"
      by (rule nth_append_length)
    moreover have "((''whatsnew-'' @ [c]) @ r) ! length u = (''whatsnew-'' @ [c]) ! length u"
      using True len by (simp only: nth_append if_True)
    ultimately have "(''whatsnew-'' @ [c]) ! length u = CHR ''/''"
      using eq by (simp only:)
    moreover have "(''whatsnew-'' @ [c]) ! length u \<in> set (''whatsnew-'' @ [c])"
      using True len by (simp only: nth_mem)
    ultimately have "CHR ''/'' \<in> set (''whatsnew-'' @ [c])"
      by (simp only:)
    then have "c = CHR ''/''"
      by simp
    with c alnum_not_slash show ?thesis
      by simp
  next
    case False
    from eq have "take 10 (u @ CHR ''/'' # b) = take 10 ((''whatsnew-'' @ [c]) @ r)"
      by (simp only:)
    with False len have "take 10 u = ''whatsnew-'' @ [c]"
      by (simp only: take_append) simp
    then have "u = (''whatsnew-'' @ [c]) @ drop 10 u"
      by (metis append_take_drop_id)
    then have "u = ''whatsnew-'' @ c # drop 10 u"
      by simp
    with c show ?thesis
      unfolding localeStart_iff by blast
  qed
qed

lemma not_localeStart_slash: "\<not> localeStart (CHR ''/'' # b)"
  by (simp add: localeStart_def)

lemma hasLocaleStart_slash:
  "hasLocaleStart (a @ CHR ''/'' # b) \<longleftrightarrow> hasLocaleStart a \<or> hasLocaleStart b"
proof (induction a)
  case Nil
  show ?case
    by (simp add: not_localeStart_slash)
next
  case (Cons x a)
  have "localeStart ((x # a) @ CHR ''/'' # b) \<longleftrightarrow> localeStart (x # a)"
    using localeStart_before_slash localeStart_append by blast
  with Cons show ?case
    by auto
qed

lemma FindStringSubmatch_prefix:
  assumes "\<not> hasLocaleStart p" and "p = [] \<or> last p = CHR ''/''"
  shows "FindStringSubmatch localePattern n (p @ w) = FindStringSubmatch localePattern n w"
  using assms
proof (induction p)
  case Nil
  show ?case by simp
next
  case (Cons x p)
  from Cons.prems(2) obtain q where q: "x # p = q @ [CHR ''/'']"
    by (metis append_butlast_last_id list.distinct(1))
  have "\<not> localeStart ((x # p) @ w)"
  proof
    assume "localeStart ((x # p) @ w)"
    then have "localeStart (q @ CHR ''/'' # w)"
      unfolding q by simp
    then have "localeStart q"
      by (rule localeStart_before_slash)
    then have "localeStart (x # p)"
      unfolding q by (rule localeStart_append)
    with Cons.prems(1) show False
      by simp
  qed
  then have "FindStringSubmatch localePattern n ((x # p) @ w) =
      FindStringSubmatch localePattern n (p @ w)"
    by (simp add: FindStringSubmatch_skip)
  moreover from Cons.prems have "\<not> hasLocaleStart p" and "p = [] \<or> last p = CHR ''/''"
    by (auto split: if_splits)
  ultimately show ?case
    using Cons.IH by simp
qed

lemma hasLocaleStart_strings_Join:
  "hasLocaleStart (strings_Join xs ''/'') \<longleftrightarrow> (\<exists>x\<in>set xs. hasLocaleStart x)"
proof (induction xs "''/''" rule: strings_Join.induct)
  case 1
  show ?case by simp
next
  case (2 x)
  show ?case by simp
next
  case (3 x y ys)
  then show ?case
    using hasLocaleStart_slash[of x "strings_Join (y # ys) ''/''"] by simp
qed

lemma strings_Join_strings_Split: "strings_Join (strings_Split s c) [c] = s"
proof (induction s)
  case Nil
  show ?case by simp
next
  case (Cons x s)
  obtain y ys where y: "strings_Split s c = y # ys"
    using strings_Split_not_Nil[of s c] by (cases "strings_Split s c") auto
  with Cons show ?case
    by (cases ys) auto
qed

lemma strings_Split_append:
  "strings_Split (a @ c # b) c = strings_Split a c @ strings_Split b c"
proof (induction a)
  case Nil
  show ?case by simp
next
  case (Cons x a)
  obtain y ys where "strings_Split a c = y # ys"
    using strings_Split_not_Nil[of a c] by (cases "strings_Split a c") auto
  with Cons show ?case
    by simp
qed

lemma cleanElems_append:
  "cleanElems rooted (xs @ ys) out = cleanElems rooted ys (cleanElems rooted xs out)"
  by (induction xs arbitrary: out) simp_all

lemma strings_Join_snoc:
  "strings_Join (xs @ [x]) sep = (if xs = [] then x else strings_Join xs sep @ sep @ x)"
  by (induction xs sep rule: strings_Join.induct) auto

lemma set_cleanElems:
  "set (cleanElems rooted es out) \<subseteq> set es \<union> set out \<union> {''..''}"
proof (induction es arbitrary: out)
  case Nil
  show ?case by auto
next
  case (Cons e es)
  obtain out' where step: "cleanElems rooted (e # es) out = cleanElems rooted es out'"
    and sub: "set out' \<subseteq> insert e (set out \<union> {''..''})"
  proof (cases "e = [] \<or> e = ''.''")
    case True
    then have a: "cleanElems rooted (e # es) out = cleanElems rooted es out"
      by auto
    have b: "set out \<subseteq> insert e (set out \<union> {''..''})"
      by auto
    from a b show ?thesis
      by (rule that)
  next
    case False
    show ?thesis
    proof (cases "e = ''..''")
      case dd: True
      show ?thesis
      proof (cases out)
        case Nil
        with dd have a: "cleanElems rooted (e # es) out =
            cleanElems rooted es (if rooted then [] else [''..''])"
          by simp
        have b: "set (if rooted then [] else [''..'']) \<subseteq> insert e (set out \<union> {''..''})"
          by auto
        from a b show ?thesis
          by (rule that)
      next
        case (Cons prev rest)
        with dd have a: "cleanElems rooted (e # es) out =
            cleanElems rooted es (if prev = ''..'' then ''..'' # out else rest)"
          by simp
        have b: "set (if prev = ''..'' then ''..'' # out else rest) \<subseteq>
            insert e (set out \<union> {''..''})"
          using Cons by auto
        from a b show ?thesis
          by (rule that)
      qed
    next
      case nd: False
      with False have a: "cleanElems rooted (e # es) out = cleanElems rooted es (e # out)"
        by simp
      have b: "set (e # out) \<subseteq> insert e (set out \<union> {''..''})"
        by auto
      from a b show ?thesis
        by (rule that)
    qed
  qed
  from Cons[of out'] sub show ?case
    unfolding step by auto
qed

lemma not_hasLocaleStart_dotdot: "\<not> hasLocaleStart ''..''"
  by (simp add: localeStart_def)

lemma hasLocaleStart_root: "hasLocaleStart (CHR ''/'' # q) = hasLocaleStart q"
  by (simp add: not_localeStart_slash)

lemma filepath_Join_file:
  "\<exists>p. (p = [] \<or> last p = CHR ''/'') \<and> (hasLocaleStart p \<longrightarrow> hasLocaleStart dir) \<and>
       (\<forall>name. name \<noteq> [] \<and> CHR ''/'' \<notin> set name \<and> name \<noteq> ''.'' \<and> name \<noteq> ''..'' \<longrightarrow>
          filepath_Join [dir, name] = p @ name)"
proof (cases "dir = []")
  case True
  have "filepath_Join [dir, name] = [] @ name"
    if ne: "name \<noteq> []" and ns: "CHR ''/'' \<notin> set name" and nd: "name \<noteq> ''.''"
      and ndd: "name \<noteq> ''..''" for name
  proof -
    from ne ns have h: "hd name \<noteq> CHR ''/''"
      by (cases name) auto
    have "strings_Split name (CHR ''/'') = [name]"
      using ns by (rule strings_Split_no_sep)
    with ne nd ndd h have "filepath_Clean name = name"
      by (simp add: filepath_Clean_def)
    with True show ?thesis
      by (simp add: filepath_Join_def)
  qed
  then show ?thesis
    by (intro exI[of _ "[]"]) simp
next
  case False
  define rooted where "rooted = (hd dir = CHR ''/'')"
  define st where "st = cleanElems rooted (strings_Split dir (CHR ''/'')) []"
  define root where "root = (if rooted then ''/'' else [])"
  define p where "p = root @ (if st = [] then [] else strings_Join (rev st) ''/'' @ ''/'')"
  have join: "filepath_Join [dir, name] = p @ name"
    if ne: "name \<noteq> []" and ns: "CHR ''/'' \<notin> set name" and nd: "name \<noteq> ''.''"
      and ndd: "name \<noteq> ''..''" for name
  proof -
    have split: "strings_Split (dir @ CHR ''/'' # name) (CHR ''/'') =
        strings_Split dir (CHR ''/'') @ [name]"
      using ns by (simp add: strings_Split_append strings_Split_no_sep)
    have "cleanElems rooted (strings_Split dir (CHR ''/'') @ [name]) [] = name # st"
      unfolding cleanElems_append st_def using ne nd ndd by simp
    then have out: "strings_Join (rev (cleanElems rooted
          (strings_Split (dir @ CHR ''/'' # name) (CHR ''/'')) [])) ''/'' =
        (if st = [] then [] else strings_Join (rev st) ''/'' @ ''/'') @ name"
      unfolding split by (simp add: strings_Join_snoc)
    have hd: "hd (dir @ CHR ''/'' # name) = hd dir"
      using False by simp
    have "filepath_Clean (dir @ CHR ''/'' # name) = p @ name"
      unfolding filepath_Clean_def Let_def out hd p_def root_def rooted_def [symmetric]
      using ne by simp
    with False show ?thesis
      by (simp add: filepath_Join_def)
  qed
  have last: "p = [] \<or> last p = CHR ''/''"
    unfolding p_def root_def by simp
  have "hasLocaleStart dir" if "hasLocaleStart p"
  proof -
    from that have "hasLocaleStart (if st = [] then [] else strings_Join (rev st) ''/'' @ ''/'')"
      unfolding p_def root_def by (auto simp: not_localeStart_slash split: if_splits)
    then have "st \<noteq> []" and "hasLocaleStart (strings_Join (rev st) ''/'' @ ''/'')"
      by (auto split: if_splits)
    then have "hasLocaleStart (strings_Join (rev st) ''/'')"
      using hasLocaleStart_slash[of "strings_Join (rev st) ''/''" "[]"] by simp
    then obtain e where e: "e \<in> set st" "hasLocaleStart e"
      unfolding hasLocaleStart_strings_Join by auto
    from e(1) have "e \<in> set (strings_Split dir (CHR ''/'')) \<union> {''..''}"
      using set_cleanElems[of rooted "strings_Split dir (CHR ''/'')" "[]"] unfolding st_def by auto
    with e(2) not_hasLocaleStart_dotdot have "e \<in> set (strings_Split dir (CHR ''/''))"
      by auto
    with e(2) have "hasLocaleStart (strings_Join (strings_Split dir (CHR ''/'')) ''/'')"
      unfolding hasLocaleStart_strings_Join by auto
    then show ?thesis
      using strings_Join_strings_Split[of dir "CHR ''/''"] by simp
  qed
  with join last show ?thesis
    by (intro exI[of _ p]) simp
qed

lemma FindStringSubmatch_prefixed:
  assumes "\<not> hasLocaleStart p" and "p = [] \<or> last p = CHR ''/''"
    and "alnum c" and "CHR 0x0A \<notin> set t"
  shows "FindStringSubmatch localePattern 3 (p @ ''whatsnew-'' @ c # t) =
           [''whatsnew-'' @ c # t, c # t, c # t, []]"
proof -
  have "FindStringSubmatch localePattern 3 (p @ ''whatsnew-'' @ c # t) =
      FindStringSubmatch localePattern 3 (''whatsnew-'' @ c # t)"
    using assms(1,2) by (rule FindStringSubmatch_prefix)
  also have "\<dots> = [''whatsnew-'' @ c # t, c # t, c # t, []]"
    using assms(3,4) by (rule FindStringSubmatch_localeStart)
  finally show ?thesis .
qed

section \<open>Properties of reading the release notes\<close>

lemma readRecentChanges_tags:
  assumes "\<And>tag. tag \<in> set tags \<Longrightarrow>
      \<exists>w g h. FindStringSubmatch localePattern 3 (path tag) = [w, tag, g, h]"
    and "\<And>tag. tag \<in> set tags \<Longrightarrow> fileutil_ReadStringFromFile fs (path tag) = Inr (content tag)"
  shows "readRecentChanges fs (map path tags) m =
           ((\<lambda>k. if k \<in> set tags then Some (content k) else m k), None)"
  using assms
proof (induction tags arbitrary: m)
  case Nil
  show ?case by simp
next
  case (Cons tag tags)
  from Cons.prems(1)[of tag] obtain w g h where
    w: "FindStringSubmatch localePattern 3 (path tag) = [w, tag, g, h]"
    by auto
  from Cons.prems(2)[of tag] have r: "fileutil_ReadStringFromFile fs (path tag) = Inr (content tag)"
    by simp
  have "readRecentChanges fs (map path tags) (m(tag \<mapsto> content tag)) =
      ((\<lambda>k. if k \<in> set tags then Some (content k) else (m(tag \<mapsto> content tag)) k), None)"
    using Cons.prems by (intro Cons.IH) auto
  then show ?case
    by (auto simp: w r Let_def)
qed

lemma readLocalisedRecentChanges_tags:
  assumes dir: "\<not> hasLocaleStart recentChangesDir"
    and glob: "filepath_Glob fs (filepath_Join [recentChangesDir, ''whatsnew-*'']) =
      Inr (map (\<lambda>tag. filepath_Join [recentChangesDir, ''whatsnew-'' @ tag]) tags)"
    and tags: "\<forall>tag\<in>set tags. localeTag tag"
    and reads: "\<forall>tag\<in>set tags.
      fileutil_ReadStringFromFile fs (filepath_Join [recentChangesDir, ''whatsnew-'' @ tag]) =
        Inr (content tag)"
  shows "readLocalisedRecentChanges fs recentChangesDir =
           ((\<lambda>k. if k \<in> set tags then Some (content k) else None), None)"
proof -
  obtain p where p: "p = [] \<or> last p = CHR ''/''" "hasLocaleStart p \<longrightarrow> hasLocaleStart recentChangesDir"
    and join: "\<And>name. name \<noteq> [] \<and> CHR ''/'' \<notin> set name \<and> name \<noteq> ''.'' \<and> name \<noteq> ''..'' \<Longrightarrow>
          filepath_Join [recentChangesDir, name] = p @ name"
    using filepath_Join_file[of recentChangesDir] by blast
  from p(2) dir have np: "\<not> hasLocaleStart p"
    by blast
  have m: "\<exists>w g h. FindStringSubmatch localePattern 3
      (filepath_Join [recentChangesDir, ''whatsnew-'' @ tag]) = [w, tag, g, h]"
    if "tag \<in> set tags" for tag
  proof -
    from that tags have "localeTag tag"
      by blast
    then obtain c t where t: "tag = c # t" "alnum c" "CHR 0x0A \<notin> set t" "CHR ''/'' \<notin> set tag"
      by (cases tag) (auto simp: localeTag_def)
    have "filepath_Join [recentChangesDir, ''whatsnew-'' @ tag] = p @ ''whatsnew-'' @ tag"
      using t(4) by (intro join) simp
    moreover have "FindStringSubmatch localePattern 3 (p @ ''whatsnew-'' @ c # t) =
        [''whatsnew-'' @ c # t, c # t, c # t, []]"
      using np p(1) t(2,3) by (rule FindStringSubmatch_prefixed)
    ultimately show ?thesis
      unfolding t(1) by simp
  qed
  have "readRecentChanges fs
      (map (\<lambda>tag. filepath_Join [recentChangesDir, ''whatsnew-'' @ tag]) tags) Map.empty =
      ((\<lambda>k. if k \<in> set tags then Some (content k) else Map.empty k), None)"
    using m reads by (intro readRecentChanges_tags) auto
  then show ?thesis
    by (simp add: readLocalisedRecentChanges_def glob)
qed

lemma glob_directoryFS:
  "filepath_Glob (directoryFS dir files) (filepath_Join [dir, ''whatsnew-*'']) =
     Inr (map (\<lambda>file. filepath_Join [dir, fst file])
       (filter (\<lambda>file. prefix ''whatsnew-'' (fst file)) files))"
  by (simp add: directoryFS_def)

lemma read_directoryFS:
  "fileutil_ReadStringFromFile (directoryFS dir files) path =
     (case find (\<lambda>file. filepath_Join [dir, fst file] = path) files of
        Some file \<Rightarrow> Inr (snd file)
      | None \<Rightarrow> Inl (''open '' @ path @ '': no such file or directory''))"
  by (simp add: directoryFS_def)


lemma readRecentChanges_failed_empty:
  "snd (readRecentChanges fs paths m) = Some err \<Longrightarrow> fst (readRecentChanges fs paths m) = Map.empty"
  by (induction paths arbitrary: m) (auto simp: Let_def split: sum.splits if_splits)

lemma readRecentChanges_read_fails:
  assumes "p \<in> set paths" and "length (FindStringSubmatch localePattern 3 p) \<ge> 2"
    and "fileutil_ReadStringFromFile fs p = Inl e"
  shows "\<exists>q err. q \<in> set paths \<and> length (FindStringSubmatch localePattern 3 q) \<ge> 2 \<and>
           fileutil_ReadStringFromFile fs q = Inl err \<and>
           readRecentChanges fs paths m = (Map.empty, Some err)"
  using assms
proof (induction paths arbitrary: m)
  case Nil
  then show ?case by simp
next
  case (Cons x paths)
  show ?case
  proof (cases "length (FindStringSubmatch localePattern 3 x) \<ge> 2")
    case True
    show ?thesis
    proof (cases "fileutil_ReadStringFromFile fs x")
      case (Inl err)
      with True have "readRecentChanges fs (x # paths) m = (Map.empty, Some err)"
        by (simp add: Let_def)
      with True Inl show ?thesis
        by (intro exI[of _ x] exI[of _ err]) simp
    next
      case (Inr content)
      with Cons.prems have "p \<in> set paths"
        by auto
      from Cons.IH[OF this Cons.prems(2,3), of "m(FindStringSubmatch localePattern 3 x ! 1 \<mapsto> content)"]
      obtain q err where "q \<in> set paths" "length (FindStringSubmatch localePattern 3 q) \<ge> 2"
        "fileutil_ReadStringFromFile fs q = Inl err"
        "readRecentChanges fs paths (m(FindStringSubmatch localePattern 3 x ! 1 \<mapsto> content)) =
           (Map.empty, Some err)"
        by blast
      with True Inr show ?thesis
        by (intro exI[of _ q] exI[of _ err]) (simp add: Let_def)
    qed
  next
    case False
    with Cons.prems have "p \<in> set paths"
      by auto
    from Cons.IH[OF this Cons.prems(2,3), of m]
    obtain q err where "q \<in> set paths" "length (FindStringSubmatch localePattern 3 q) \<ge> 2"
      "fileutil_ReadStringFromFile fs q = Inl err"
      "readRecentChanges fs paths m = (Map.empty, Some err)"
      by blast
    with False show ?thesis
      by (intro exI[of _ q] exI[of _ err]) (simp add: Let_def)
  qed
qed

lemma readLocalisedRecentChanges_failed_empty:
  "snd (readLocalisedRecentChanges fs dir) = Some err \<Longrightarrow>
   fst (readLocalisedRecentChanges fs dir) = Map.empty"
  unfolding readLocalisedRecentChanges_def
  by (auto simp: readRecentChanges_failed_empty split: sum.splits)


lemma readLocalisedRecentChanges_three_files:
  assumes "\<not> hasLocaleStart dir"
  shows "readLocalisedRecentChanges
           (directoryFS dir [(''notes.txt'', n), (''whatsnew-en-US'', a), (''whatsnew-fr'', b)])
           dir = ([''en-US'' \<mapsto> a, ''fr'' \<mapsto> b], None)"
proof -
  let ?fs = "directoryFS dir [(''notes.txt'', n), (''whatsnew-en-US'', a), (''whatsnew-fr'', b)]"
  obtain p where join: "\<And>name. name \<noteq> [] \<and> CHR ''/'' \<notin> set name \<and> name \<noteq> ''.'' \<and> name \<noteq> ''..'' \<Longrightarrow>
          filepath_Join [dir, name] = p @ name"
    using filepath_Join_file[of dir] by blast
  have j: "filepath_Join [dir, ''notes.txt''] = p @ ''notes.txt''"
    "filepath_Join [dir, ''whatsnew-en-US''] = p @ ''whatsnew-en-US''"
    "filepath_Join [dir, ''whatsnew-fr''] = p @ ''whatsnew-fr''"
    by (intro join; simp)+
  have g: "filepath_Glob ?fs (filepath_Join [dir, ''whatsnew-*'']) =
      Inr (map (\<lambda>tag. filepath_Join [dir, ''whatsnew-'' @ tag]) [''en-US'', ''fr''])"
    unfolding glob_directoryFS by simp
  have t: "\<forall>tag\<in>set [''en-US'', ''fr'']. localeTag tag"
    by (simp add: localeTag_def alnum_def)
  have r: "\<forall>tag\<in>set [''en-US'', ''fr''].
      fileutil_ReadStringFromFile ?fs (filepath_Join [dir, ''whatsnew-'' @ tag]) =
        Inr ((\<lambda>k. if k = ''en-US'' then a else b) tag)"
    by (simp add: read_directoryFS j)
  have "readLocalisedRecentChanges ?fs dir =
      ((\<lambda>k. if k \<in> set [''en-US'', ''fr''] then Some ((\<lambda>k. if k = ''en-US'' then a else b) k)
             else None), None)"
    using assms g t r by (rule readLocalisedRecentChanges_tags)
  moreover have "(\<lambda>k. if k \<in> set [''en-US'', ''fr''] then Some (if k = ''en-US'' then a else b)
             else None) = [''en-US'' \<mapsto> a, ''fr'' \<mapsto> b]"
    by (rule ext) auto
  ultimately show ?thesis
    by simp
qed

lemma readRecentChanges_no_error:
  assumes "\<forall>p\<in>set paths. length (FindStringSubmatch localePattern 3 p) \<ge> 2 \<longrightarrow>
      \<not> isl (fileutil_ReadStringFromFile fs p)"
  shows "snd (readRecentChanges fs paths m) = None"
  using assms
  by (induction paths arbitrary: m) (auto simp: Let_def split: sum.splits)

lemma readRecentChanges_key_origin:
  assumes "\<forall>p\<in>set paths. length (FindStringSubmatch localePattern 3 p) \<ge> 2 \<longrightarrow>
      \<not> isl (fileutil_ReadStringFromFile fs p)"
  shows "fst (readRecentChanges fs paths m) k = m k \<or>
         (\<exists>q\<in>set paths. \<exists>v. length (FindStringSubmatch localePattern 3 q) \<ge> 2 \<and>
            FindStringSubmatch localePattern 3 q ! 1 = k \<and>
            fileutil_ReadStringFromFile fs q = Inr v \<and>
            fst (readRecentChanges fs paths m) k = Some v)"
  using assms
proof (induction paths arbitrary: m)
  case Nil
  show ?case by simp
next
  case (Cons x paths)
  from Cons.prems have tail: "\<forall>p\<in>set paths. length (FindStringSubmatch localePattern 3 p) \<ge> 2 \<longrightarrow>
      \<not> isl (fileutil_ReadStringFromFile fs p)"
    by simp
  show ?case
  proof (cases "length (FindStringSubmatch localePattern 3 x) \<ge> 2")
    case False
    then have step: "readRecentChanges fs (x # paths) m = readRecentChanges fs paths m"
      by (simp add: Let_def)
    from Cons.IH[OF tail, of m] show ?thesis
    proof
      assume "fst (readRecentChanges fs paths m) k = m k"
      then show ?thesis
        unfolding step by simp
    next
      assume "\<exists>q\<in>set paths. \<exists>v. length (FindStringSubmatch localePattern 3 q) \<ge> 2 \<and>
            FindStringSubmatch localePattern 3 q ! 1 = k \<and>
            fileutil_ReadStringFromFile fs q = Inr v \<and>
            fst (readRecentChanges fs paths m) k = Some v"
      then obtain q v where q: "q \<in> set paths"
        "length (FindStringSubmatch localePattern 3 q) \<ge> 2"
        "FindStringSubmatch localePattern 3 q ! 1 = k"
        "fileutil_ReadStringFromFile fs q = Inr v"
        "fst (readRecentChanges fs paths m) k = Some v"
        by blast
      from q(1) have "q \<in> set (x # paths)"
        by simp
      moreover from q(5) have "fst (readRecentChanges fs (x # paths) m) k = Some v"
        unfolding step .
      ultimately show ?thesis
        using q(2,3,4) by blast
    qed
  next
    case True
    with Cons.prems obtain c where c: "fileutil_ReadStringFromFile fs x = Inr c"
      by (cases "fileutil_ReadStringFromFile fs x") auto
    let ?m = "m(FindStringSubmatch localePattern 3 x ! 1 \<mapsto> c)"
    from True c have step: "readRecentChanges fs (x # paths) m = readRecentChanges fs paths ?m"
      by (simp add: Let_def)
    from Cons.IH[OF tail, of ?m] show ?thesis
    proof
      assume eq: "fst (readRecentChanges fs paths ?m) k = ?m k"
      show ?thesis
      proof (cases "FindStringSubmatch localePattern 3 x ! 1 = k")
        case k: True
        with eq have "fst (readRecentChanges fs (x # paths) m) k = Some c"
          unfolding step by simp
        with True c k have "x \<in> set (x # paths)"
          "length (FindStringSubmatch localePattern 3 x) \<ge> 2 \<and>
            FindStringSubmatch localePattern 3 x ! 1 = k \<and>
            fileutil_ReadStringFromFile fs x = Inr c \<and>
            fst (readRecentChanges fs (x # paths) m) k = Some c"
          by simp_all
        then show ?thesis
          by blast
      next
        case False
        with eq show ?thesis
          unfolding step by simp
      qed
    next
      assume "\<exists>q\<in>set paths. \<exists>v. length (FindStringSubmatch localePattern 3 q) \<ge> 2 \<and>
            FindStringSubmatch localePattern 3 q ! 1 = k \<and>
            fileutil_ReadStringFromFile fs q = Inr v \<and>
            fst (readRecentChanges fs paths ?m) k = Some v"
      then obtain q v where q: "q \<in> set paths"
        "length (FindStringSubmatch localePattern 3 q) \<ge> 2"
        "FindStringSubmatch localePattern 3 q ! 1 = k"
        "fileutil_ReadStringFromFile fs q = Inr v"
        "fst (readRecentChanges fs paths ?m) k = Some v"
        by blast
      from q(1) have "q \<in> set (x # paths)"
        by simp
      moreover from q(5) have "fst (readRecentChanges fs (x # paths) m) k = Some v"
        unfolding step .
      ultimately show ?thesis
        using q(2,3,4) by blast
    qed
  qed
qed

lemma readRecentChanges_key_present:
  assumes "\<forall>p\<in>set paths. length (FindStringSubmatch localePattern 3 p) \<ge> 2 \<longrightarrow>
      \<not> isl (fileutil_ReadStringFromFile fs p)"
    and "p \<in> set paths" and "length (FindStringSubmatch localePattern 3 p) \<ge> 2"
    and "FindStringSubmatch localePattern 3 p ! 1 = k"
  shows "\<exists>q\<in>set paths. \<exists>v. length (FindStringSubmatch localePattern 3 q) \<ge> 2 \<and>
            FindStringSubmatch localePattern 3 q ! 1 = k \<and>
            fileutil_ReadStringFromFile fs q = Inr v \<and>
            fst (readRecentChanges fs paths m) k = Some v"
  using assms
proof (induction paths arbitrary: m)
  case Nil
  then show ?case by simp
next
  case (Cons x paths)
  from Cons.prems(1) have tail: "\<forall>p\<in>set paths. length (FindStringSubmatch localePattern 3 p) \<ge> 2 \<longrightarrow>
      \<not> isl (fileutil_ReadStringFromFile fs p)"
    by simp
  show ?case
  proof (cases "length (FindStringSubmatch localePattern 3 x) \<ge> 2")
    case False
    then have step: "readRecentChanges fs (x # paths) m = readRecentChanges fs paths m"
      by (simp add: Let_def)
    from False Cons.prems have "p \<in> set paths"
      by auto
    from Cons.IH[OF tail this Cons.prems(3,4), of m]
    obtain q v where q: "q \<in> set paths"
      "length (FindStringSubmatch localePattern 3 q) \<ge> 2"
      "FindStringSubmatch localePattern 3 q ! 1 = k"
      "fileutil_ReadStringFromFile fs q = Inr v"
      "fst (readRecentChanges fs paths m) k = Some v"
      by blast
    from q(1) have "q \<in> set (x # paths)"
      by simp
    moreover from q(5) have "fst (readRecentChanges fs (x # paths) m) k = Some v"
      unfolding step .
    ultimately show ?thesis
      using q(2,3,4) by blast
  next
    case True
    with Cons.prems(1) obtain c where c: "fileutil_ReadStringFromFile fs x = Inr c"
      by (cases "fileutil_ReadStringFromFile fs x") auto
    let ?m = "m(FindStringSubmatch localePattern 3 x ! 1 \<mapsto> c)"
    from True c have step: "readRecentChanges fs (x # paths) m = readRecentChanges fs paths ?m"
      by (simp add: Let_def)
    show ?thesis
    proof (cases "p \<in> set paths")
      case True
      from Cons.IH[OF tail this Cons.prems(3,4), of ?m]
      obtain q v where q: "q \<in> set paths"
        "length (FindStringSubmatch localePattern 3 q) \<ge> 2"
        "FindStringSubmatch localePattern 3 q ! 1 = k"
        "fileutil_ReadStringFromFile fs q = Inr v"
        "fst (readRecentChanges fs paths ?m) k = Some v"
        by blast
      from q(1) have "q \<in> set (x # paths)"
        by simp
      moreover from q(5) have "fst (readRecentChanges fs (x # paths) m) k = Some v"
        unfolding step .
      ultimately show ?thesis
        using q(2,3,4) by blast
    next
      case False
      with Cons.prems have px: "p = x"
        by auto
      from readRecentChanges_key_origin[OF tail, of ?m k] show ?thesis
      proof
        assume "fst (readRecentChanges fs paths ?m) k = ?m k"
        with px Cons.prems(4) have "fst (readRecentChanges fs (x # paths) m) k = Some c"
          unfolding step by simp
        with True c px Cons.prems(4) have "x \<in> set (x # paths)"
          "length (FindStringSubmatch localePattern 3 x) \<ge> 2 \<and>
            FindStringSubmatch localePattern 3 x ! 1 = k \<and>
            fileutil_ReadStringFromFile fs x = Inr c \<and>
            fst (readRecentChanges fs (x # paths) m) k = Some c"
          by simp_all
        then show ?thesis
          by blast
      next
        assume "\<exists>q\<in>set paths. \<exists>v. length (FindStringSubmatch localePattern 3 q) \<ge> 2 \<and>
            FindStringSubmatch localePattern 3 q ! 1 = k \<and>
            fileutil_ReadStringFromFile fs q = Inr v \<and>
            fst (readRecentChanges fs paths ?m) k = Some v"
        then obtain q v where q: "q \<in> set paths"
          "length (FindStringSubmatch localePattern 3 q) \<ge> 2"
          "FindStringSubmatch localePattern 3 q ! 1 = k"
          "fileutil_ReadStringFromFile fs q = Inr v"
          "fst (readRecentChanges fs paths ?m) k = Some v"
          by blast
        from q(1) have "q \<in> set (x # paths)"
          by simp
        moreover from q(5) have "fst (readRecentChanges fs (x # paths) m) k = Some v"
          unfolding step .
        ultimately show ?thesis
          using q(2,3,4) by blast
      qed
    qed
  qed
qed

lemma FindStringSubmatch_locale_file:
  assumes "\<not> hasLocaleStart dir" and "localeTag tag"
  shows "FindStringSubmatch localePattern 3 (filepath_Join [dir, ''whatsnew-'' @ tag]) =
           [''whatsnew-'' @ tag, tag, tag, []]"
proof -
  obtain p where p: "p = [] \<or> last p = CHR ''/''" "hasLocaleStart p \<longrightarrow> hasLocaleStart dir"
    and join: "\<And>name. name \<noteq> [] \<and> CHR ''/'' \<notin> set name \<and> name \<noteq> ''.'' \<and> name \<noteq> ''..'' \<Longrightarrow>
          filepath_Join [dir, name] = p @ name"
    using filepath_Join_file[of dir] by blast
  from p(2) assms(1) have np: "\<not> hasLocaleStart p"
    by blast
  from assms(2) obtain c t where t: "tag = c # t" "alnum c" "CHR 0x0A \<notin> set t" "CHR ''/'' \<notin> set tag"
    by (cases tag) (auto simp: localeTag_def)
  have "filepath_Join [dir, ''whatsnew-'' @ tag] = p @ ''whatsnew-'' @ tag"
    using t(4) by (intro join) simp
  moreover have "FindStringSubmatch localePattern 3 (p @ ''whatsnew-'' @ c # t) =
      [''whatsnew-'' @ c # t, c # t, c # t, []]"
    using np p(1) t(2,3) by (rule FindStringSubmatch_prefixed)
  ultimately show ?thesis
    unfolding t(1) by simp
qed


section \<open>Properties of building a release\<close>

lemma createTrackRelease_result:
  "createTrackRelease fs config versionCodes =
     (let status =
            (if Configs.Status config = []
             then releaseStatusFromConfig (Configs.UserFraction config)
             else Configs.Status config);
          newRelease =
            \<lparr>VersionCodes = versionCodes,
             Status = status,
             InAppUpdatePriority = UpdatePriority config,
             UserFraction =
               (if shouldApplyUserFraction status then Configs.UserFraction config
                else float64_zero),
             Name = ReleaseName config,
             ReleaseNotes = Map.empty\<rparr>
      in case updateListing fs (WhatsnewsDir config) newRelease of
           Inl err \<Rightarrow> Inl (''failed to update listing, reason: '' @ err)
         | Inr release \<Rightarrow> Inr release)"
  unfolding createTrackRelease_def Let_def by simp

lemma updateListing_fields:
  assumes "updateListing fs whatsNewsDir release = Inr release'"
  shows "TrackRelease.Status release' = TrackRelease.Status release \<and>
         TrackRelease.UserFraction release' = TrackRelease.UserFraction release \<and>
         VersionCodes release' = VersionCodes release \<and> Name release' = Name release"
  using assms unfolding updateListing_def
  by (auto split: if_splits prod.splits option.splits)

lemma updateListing_no_dir: "updateListing fs [] release = Inr release"
  by (simp add: updateListing_def)

lemma updateListing_isl:
  "isl (updateListing fs whatsNewsDir release) = isl (updateListing fs whatsNewsDir release')"
  unfolding updateListing_def by (auto split: prod.splits option.splits)

lemma createTrackRelease_fields:
  assumes "createTrackRelease fs config versionCodes = Inr release"
  shows "TrackRelease.Status release =
           (if Configs.Status config = []
            then releaseStatusFromConfig (Configs.UserFraction config)
            else Configs.Status config) \<and>
         TrackRelease.UserFraction release =
           (if shouldApplyUserFraction (TrackRelease.Status release)
            then Configs.UserFraction config else float64_zero)"
  using assms unfolding createTrackRelease_result Let_def
  by (auto split: sum.splits dest!: updateListing_fields)

lemma createTrackRelease_no_dir:
  "WhatsnewsDir config = [] \<Longrightarrow> \<exists>release. createTrackRelease fs config versionCodes = Inr release"
  unfolding createTrackRelease_result Let_def by (simp add: updateListing_no_dir)

lemma not_float64_ne_zero_zero: "\<not> float64_ne_zero float64_zero"
  by (simp add: float64_ne_zero_def float64_zero_def)


lemma float64_ne_zero_example: "float64_ne_zero 0x3FD3333333333333"
  by (simp add: float64_ne_zero_def)


section \<open>Properties of the error message of a bundle upload\<close>

lemma doPrintf_no_verb:
  assumes "CHR ''%'' \<notin> set format"
  shows "doPrintf format = format"
proof -
  from assms have h: "dropWhile (\<lambda>c. c \<noteq> CHR ''%'') format = []"
    by auto
  show ?thesis
    by (subst doPrintf.simps) (simp only: h list.case)
qed

lemma uploadAppBundle_plain_message:
  assumes "bundles_Upload_Do packageName appEditID appFile ack = Inl err"
    and "CHR ''%'' \<notin> set err"
  shows "uploadAppBundle bundles_Upload_Do packageName appEditID appFile ack =
           Inl (''failed to upload app bundle, error: '' @ err @
             (if strings_Contains err bundleInstallationWarning
              then [CHR 0x0A] @
                ''To acknowledge this warning, set the Acknowledge Bundle Installation Warning (ack_bundle_installation_warning) input to true.''
              else []))"
  using assms unfolding uploadAppBundle_def Let_def fmt_Errorf_def
  by (simp add: doPrintf_no_verb)


section \<open>Expansion file entries: the claims\<close>

text \<open>
  Claim C1. An entry whose path has embedded colons, such as \<^verbatim>\<open>main:/a:b/c.obb\<close>, is
  expected to give the whole remainder after the first colon, \<^verbatim>\<open>/a:b/c.obb\<close>.
  \<^verbatim>\<open>expFileInfo\<close> splits at every colon and joins the segments after the first with the
  empty string, so the path it returns has lost its colons.
\<close>

theorem expFileInfo_embedded_colons_removed:
  "expFileInfo ''main:/a:b/c.obb'' = Inr (''/ab/c.obb'', ''main'')"
  by code_simp

text \<open>
  Claim C5. A valid entry is expected to give its type and its whitespace-trimmed path.
  The type is right, but the path handed to \<^verbatim>\<open>os.Open\<close> is the text after the first colon
  with every further colon removed: for the entry \<^verbatim>\<open>patch:/sdcard/a:b.obb\<close> (with blanks
  around it) the first call of \<^verbatim>\<open>uploadExpansionFiles\<close> opens \<^verbatim>\<open>/sdcard/ab.obb\<close>.
\<close>

theorem uploadExpansionFiles_opens_path_without_colons:
  "take 1 (fst (uploadExpansionFiles service '' patch:/sdcard/a:b.obb '' packageName appEditID
      versionCode)) = [OsOpen ''/sdcard/ab.obb'']"
proof -
  have v: "validateExpansionFileConfig (strings_TrimSpace '' patch:/sdcard/a:b.obb '')"
    by code_simp
  have i: "expFileInfo (strings_TrimSpace '' patch:/sdcard/a:b.obb '') =
      Inr (''/sdcard/ab.obb'', ''patch'')"
    by code_simp
  show ?thesis
    unfolding uploadExpansionFiles_def Let_def
    by (simp add: v i split: sum.splits option.splits)
qed

text \<open>
  Claim C6. An entry that is malformed (after trimming it has no colon, or the text
  before its first colon is neither \<^verbatim>\<open>main\<close> nor \<^verbatim>\<open>patch\<close>) makes \<^verbatim>\<open>uploadExpansionFiles\<close>
  fail with the invalid-config error without any call to the environment: no file is
  opened, so no error of \<^verbatim>\<open>os.Open\<close> can be the result.
\<close>

theorem uploadExpansionFiles_malformed_entry:
  assumes "CHR '':'' \<notin> set (strings_TrimSpace expFileEntry) \<or>
           (takeWhile (\<lambda>x. x \<noteq> CHR '':'') (strings_TrimSpace expFileEntry) \<noteq> ''main'' \<and>
            takeWhile (\<lambda>x. x \<noteq> CHR '':'') (strings_TrimSpace expFileEntry) \<noteq> ''patch'')"
  shows "uploadExpansionFiles service expFileEntry packageName appEditID versionCode =
           ([], Some (''invalid expansion file config: '' @ expFileEntry))"
proof -
  from assms have "\<not> validateExpansionFileConfig (strings_TrimSpace expFileEntry)"
    unfolding validateExpansionFileConfig_iff strings_TrimSpace_idem by blast
  then show ?thesis
    by (simp add: uploadExpansionFiles_def)
qed

theorem uploadExpansionFiles_malformed_entry_witness:
  "takeWhile (\<lambda>x. x \<noteq> CHR '':'') (strings_TrimSpace '' Main:/x.obb'') = ''Main'' \<and>
   uploadExpansionFiles
     \<lparr>os_Open = (\<lambda>p. Inl ''no such file'' :: error + unit),
      expansionfiles_Upload_Do = (\<lambda>p e v t f. None)\<rparr>
     '' Main:/x.obb'' ''com.example'' ''edit'' 7 =
   ([], Some ''invalid expansion file config:  Main:/x.obb'')"
proof -
  have t: "takeWhile (\<lambda>x. x \<noteq> CHR '':'') (strings_TrimSpace '' Main:/x.obb'') = ''Main''"
    by code_simp
  then have "CHR '':'' \<notin> set (strings_TrimSpace '' Main:/x.obb'') \<or>
      (takeWhile (\<lambda>x. x \<noteq> CHR '':'') (strings_TrimSpace '' Main:/x.obb'') \<noteq> ''main'' \<and>
       takeWhile (\<lambda>x. x \<noteq> CHR '':'') (strings_TrimSpace '' Main:/x.obb'') \<noteq> ''patch'')"
    by simp
  from uploadExpansionFiles_malformed_entry [OF this] t show ?thesis
    by simp
qed

text \<open>
  Claim C9. For every entry that \<^verbatim>\<open>validateExpansionFileConfig\<close> accepts, the split at the
  colons has at least two segments, so \<^verbatim>\<open>expFileInfo\<close> does not take its malformed-entry
  branch: it returns a path and a type, and the type is exactly \<^verbatim>\<open>main\<close> or \<^verbatim>\<open>patch\<close>.
\<close>

theorem validated_entry_has_type:
  assumes "validateExpansionFileConfig e"
  shows "length (strings_Split e (CHR '':'')) \<ge> 2 \<and>
         (\<exists>p t. expFileInfo e = Inr (p, t) \<and> (t = ''main'' \<or> t = ''patch''))"
proof -
  from validated_entry_shape[OF assms] obtain a t b where
    e: "e = (a @ t) @ CHR '':'' # b" and a: "CHR '':'' \<notin> set a"
    and t: "t = ''main'' \<or> t = ''patch''" and tr: "strings_TrimSpace (a @ t) = t"
    by auto
  from a t have n: "CHR '':'' \<notin> set (a @ t)"
    by auto
  have "strings_Split e (CHR '':'') = (a @ t) # strings_Split b (CHR '':'')"
    unfolding e using n by (rule strings_Split_sep)
  then have "length (strings_Split e (CHR '':'')) \<ge> 2"
    using strings_Split_not_Nil[of b "CHR '':''"] by (cases "strings_Split b (CHR '':'')") simp_all
  moreover have "expFileInfo e =
      Inr (strings_TrimSpace (filter (\<lambda>x. x \<noteq> CHR '':'') b), t)"
    unfolding e using expFileInfo_colon[OF n, of b] tr by simp
  ultimately show ?thesis
    using t by blast
qed

theorem validated_entry_has_type_witness:
  "validateExpansionFileConfig ''  patch: /sdcard/patch.obb '' \<and>
   length (strings_Split ''  patch: /sdcard/patch.obb '' (CHR '':'')) \<ge> 2 \<and>
   (\<exists>p t. expFileInfo ''  patch: /sdcard/patch.obb '' = Inr (p, t) \<and>
      (t = ''main'' \<or> t = ''patch''))"
proof -
  have v: "validateExpansionFileConfig ''  patch: /sdcard/patch.obb ''"
    by code_simp
  from validated_entry_has_type [OF v] v show ?thesis
    by simp
qed

section \<open>Releases: the claims\<close>

text \<open>
  Claim C2. Whatever the configuration and the version codes, a release built by
  \<^verbatim>\<open>createTrackRelease\<close> has a non-zero user fraction only if its status is
  \<^verbatim>\<open>inProgress\<close> or \<^verbatim>\<open>halted\<close>. With the explicit status \<^verbatim>\<open>draft\<close> or \<^verbatim>\<open>completed\<close> a
  fraction in the configuration changes nothing: the result is the one for a zero fraction
  (so the fraction raises no error), the release has the zero fraction and the configured
  status, and without a release-notes directory the call succeeds. With the status
  \<^verbatim>\<open>halted\<close> the release carries the configured fraction.
\<close>

theorem createTrackRelease_user_fraction:
  "(\<forall>release. createTrackRelease fs config versionCodes = Inr release \<longrightarrow>
      float64_ne_zero (TrackRelease.UserFraction release) \<longrightarrow>
      TrackRelease.Status release = releaseStatusInProgress \<or>
      TrackRelease.Status release = releaseStatusHalted) \<and>
   (Configs.Status config = releaseStatusDraft \<or> Configs.Status config = releaseStatusCompleted \<longrightarrow>
      createTrackRelease fs config versionCodes =
        createTrackRelease fs (config\<lparr>Configs.UserFraction := float64_zero\<rparr>) versionCodes \<and>
      (\<forall>release. createTrackRelease fs config versionCodes = Inr release \<longrightarrow>
         TrackRelease.UserFraction release = float64_zero \<and>
         TrackRelease.Status release = Configs.Status config) \<and>
      (WhatsnewsDir config = [] \<longrightarrow>
         (\<exists>release. createTrackRelease fs config versionCodes = Inr release))) \<and>
   (Configs.Status config = releaseStatusHalted \<longrightarrow>
      (\<forall>release. createTrackRelease fs config versionCodes = Inr release \<longrightarrow>
         TrackRelease.UserFraction release = Configs.UserFraction config \<and>
         TrackRelease.Status release = releaseStatusHalted) \<and>
      (WhatsnewsDir config = [] \<longrightarrow>
         (\<exists>release. createTrackRelease fs config versionCodes = Inr release)))"
proof (intro conjI allI impI)
  fix release
  assume "createTrackRelease fs config versionCodes = Inr release"
    and "float64_ne_zero (TrackRelease.UserFraction release)"
  with createTrackRelease_fields[of fs config versionCodes release] not_float64_ne_zero_zero
  show "TrackRelease.Status release = releaseStatusInProgress \<or>
      TrackRelease.Status release = releaseStatusHalted"
    by (auto simp: shouldApplyUserFraction_def split: if_splits)
next
  assume "Configs.Status config = releaseStatusDraft \<or> Configs.Status config = releaseStatusCompleted"
  then show "createTrackRelease fs config versionCodes =
        createTrackRelease fs (config\<lparr>Configs.UserFraction := float64_zero\<rparr>) versionCodes"
    unfolding createTrackRelease_result Let_def
    by (auto simp: shouldApplyUserFraction_def releaseStatusDraft_def releaseStatusCompleted_def
        releaseStatusInProgress_def releaseStatusHalted_def)
next
  fix release
  assume "Configs.Status config = releaseStatusDraft \<or> Configs.Status config = releaseStatusCompleted"
    and "createTrackRelease fs config versionCodes = Inr release"
  with createTrackRelease_fields[of fs config versionCodes release]
  show "TrackRelease.UserFraction release = float64_zero"
    by (auto simp: shouldApplyUserFraction_def releaseStatusDraft_def releaseStatusCompleted_def
        releaseStatusInProgress_def releaseStatusHalted_def)
next
  fix release
  assume "Configs.Status config = releaseStatusDraft \<or> Configs.Status config = releaseStatusCompleted"
    and "createTrackRelease fs config versionCodes = Inr release"
  with createTrackRelease_fields[of fs config versionCodes release]
  show "TrackRelease.Status release = Configs.Status config"
    by (auto simp: releaseStatusDraft_def releaseStatusCompleted_def)
next
  assume "WhatsnewsDir config = []"
  then show "\<exists>release. createTrackRelease fs config versionCodes = Inr release"
    by (rule createTrackRelease_no_dir)
next
  fix release
  assume "Configs.Status config = releaseStatusHalted"
    and "createTrackRelease fs config versionCodes = Inr release"
  with createTrackRelease_fields[of fs config versionCodes release]
  show "TrackRelease.UserFraction release = Configs.UserFraction config"
    by (auto simp: shouldApplyUserFraction_def releaseStatusHalted_def)
next
  fix release
  assume "Configs.Status config = releaseStatusHalted"
    and "createTrackRelease fs config versionCodes = Inr release"
  with createTrackRelease_fields[of fs config versionCodes release]
  show "TrackRelease.Status release = releaseStatusHalted"
    by (auto simp: releaseStatusHalted_def)
next
  assume "WhatsnewsDir config = []"
  then show "\<exists>release. createTrackRelease fs config versionCodes = Inr release"
    by (rule createTrackRelease_no_dir)
qed

theorem createTrackRelease_user_fraction_witness:
  "(\<exists>release.
      createTrackRelease (directoryFS [] [])
        \<lparr>Configs.Status = releaseStatusDraft, UpdatePriority = 0,
         Configs.UserFraction = 0x3FD3333333333333, ReleaseName = [], WhatsnewsDir = []\<rparr> [7] =
        Inr release \<and>
      TrackRelease.UserFraction release = float64_zero \<and>
      TrackRelease.Status release = releaseStatusDraft) \<and>
   (\<exists>release.
      createTrackRelease (directoryFS [] [])
        \<lparr>Configs.Status = releaseStatusHalted, UpdatePriority = 0,
         Configs.UserFraction = 0x3FD3333333333333, ReleaseName = [], WhatsnewsDir = []\<rparr> [7] =
        Inr release \<and>
      TrackRelease.UserFraction release = 0x3FD3333333333333 \<and>
      TrackRelease.Status release = releaseStatusHalted)"
proof -
  let ?fs = "directoryFS [] []"
  let ?d = "\<lparr>Configs.Status = releaseStatusDraft, UpdatePriority = 0,
         Configs.UserFraction = 0x3FD3333333333333, ReleaseName = [], WhatsnewsDir = []\<rparr>"
  let ?h = "\<lparr>Configs.Status = releaseStatusHalted, UpdatePriority = 0,
         Configs.UserFraction = 0x3FD3333333333333, ReleaseName = [], WhatsnewsDir = []\<rparr>"
  have d: "Configs.Status ?d = releaseStatusDraft \<or> Configs.Status ?d = releaseStatusCompleted"
    and h: "Configs.Status ?h = releaseStatusHalted"
    and w: "WhatsnewsDir ?d = []" "WhatsnewsDir ?h = []"
    and u: "Configs.UserFraction ?h = 0x3FD3333333333333"
    by simp_all
  from createTrackRelease_user_fraction [of ?fs ?d "[7]"] d w(1) have
    "\<exists>release. createTrackRelease ?fs ?d [7] = Inr release \<and>
      TrackRelease.UserFraction release = float64_zero \<and>
      TrackRelease.Status release = Configs.Status ?d"
    by blast
  moreover from createTrackRelease_user_fraction [of ?fs ?h "[7]"] h w(2) have
    "\<exists>release. createTrackRelease ?fs ?h [7] = Inr release \<and>
      TrackRelease.UserFraction release = Configs.UserFraction ?h \<and>
      TrackRelease.Status release = releaseStatusHalted"
    by blast
  ultimately show ?thesis
    by simp
qed


text \<open>
  Claim C3. A configuration with an empty status gives the status \<^verbatim>\<open>inProgress\<close> when its
  user fraction is not zero and \<^verbatim>\<open>completed\<close> when it is zero; a non-empty status is the
  status of the release as it stands. Without a release-notes directory the call
  succeeds, so the statement is about releases that exist.
\<close>

theorem createTrackRelease_status:
  "(\<forall>release. createTrackRelease fs config versionCodes = Inr release \<longrightarrow>
      TrackRelease.Status release =
        (if Configs.Status config = []
         then (if float64_ne_zero (Configs.UserFraction config)
               then releaseStatusInProgress else releaseStatusCompleted)
         else Configs.Status config)) \<and>
   (WhatsnewsDir config = [] \<longrightarrow>
      (\<exists>release. createTrackRelease fs config versionCodes = Inr release))"
  using createTrackRelease_fields[of fs config versionCodes]
    createTrackRelease_no_dir[of config fs versionCodes]
  by (auto simp: releaseStatusFromConfig_def)


theorem createTrackRelease_status_witness:
  "(\<exists>release.
      createTrackRelease (directoryFS [] [])
        \<lparr>Configs.Status = [], UpdatePriority = 0, Configs.UserFraction = 0x3FD3333333333333,
         ReleaseName = [], WhatsnewsDir = []\<rparr> [7] = Inr release \<and>
      TrackRelease.Status release = releaseStatusInProgress) \<and>
   (\<exists>release.
      createTrackRelease (directoryFS [] [])
        \<lparr>Configs.Status = ''draft'', UpdatePriority = 0, Configs.UserFraction = 0x3FD3333333333333,
         ReleaseName = [], WhatsnewsDir = []\<rparr> [7] = Inr release \<and>
      TrackRelease.Status release = ''draft'')"
  using
    createTrackRelease_status [of "directoryFS [] []"
      "\<lparr>Configs.Status = [], UpdatePriority = 0, Configs.UserFraction = 0x3FD3333333333333,
        ReleaseName = [], WhatsnewsDir = []\<rparr>" "[7]"]
    createTrackRelease_status [of "directoryFS [] []"
      "\<lparr>Configs.Status = ''draft'', UpdatePriority = 0, Configs.UserFraction = 0x3FD3333333333333,
        ReleaseName = [], WhatsnewsDir = []\<rparr>" "[7]"]
  by (auto simp: float64_ne_zero_example)


section \<open>Bundle upload: the claim\<close>

text \<open>
  Claim C4. A failing bundle upload is expected to return the wrapped remote message, with
  the remediation hint appended exactly when the message holds the installation warning.
  The code builds that text and then hands it to \<^verbatim>\<open>fmt.Errorf\<close> as the format, so a
  percent sign in the remote message is read as a verb: the message of the error returned
  is not the wrapped remote message. (For a remote message without a percent sign the
  claim holds, lemma \<open>uploadAppBundle_plain_message\<close>.)
\<close>

theorem uploadAppBundle_percent_sign_rewritten:
  "uploadAppBundle
     (\<lambda>packageName appEditID appFile ack.
        Inl ''googleapi: Error 400: rollout to 100% of users is not allowed'')
     packageName appEditID appFile ack =
   Inl ''failed to upload app bundle, error: googleapi: Error 400: rollout to 100%!o(MISSING)f users is not allowed''"
proof -
  have c: "\<not> strings_Contains ''googleapi: Error 400: rollout to 100% of users is not allowed''
      bundleInstallationWarning"
    by code_simp
  have p: "doPrintf
      ''failed to upload app bundle, error: googleapi: Error 400: rollout to 100% of users is not allowed'' =
      ''failed to upload app bundle, error: googleapi: Error 400: rollout to 100%!o(MISSING)f users is not allowed''"
    by code_simp
  show ?thesis
    unfolding uploadAppBundle_def Let_def fmt_Errorf_def
    using c p by simp
qed


section \<open>Release notes: the claims\<close>

text \<open>
  Claim C7. A directory with the files \<^verbatim>\<open>whatsnew-en-US\<close>, \<^verbatim>\<open>whatsnew-fr\<close> and
  \<^verbatim>\<open>notes.txt\<close> is expected to give exactly the keys \<^verbatim>\<open>en-US\<close> and \<^verbatim>\<open>fr\<close>. The pattern is
  matched against the whole globbed path, so in a directory named \<^verbatim>\<open>whatsnew-x\<close> the keys
  are \<^verbatim>\<open>x/whatsnew-en-US\<close> and \<^verbatim>\<open>x/whatsnew-fr\<close>. (For a directory whose path holds no
  \<^verbatim>\<open>whatsnew-\<close> followed by a letter or digit the claim holds, lemma
  \<open>readLocalisedRecentChanges_three_files\<close>.)
\<close>

theorem readLocalisedRecentChanges_directory_text_in_key:
  "readLocalisedRecentChanges
     (directoryFS ''whatsnew-x''
        [(''notes.txt'', ''Notes''), (''whatsnew-en-US'', ''Hello''), (''whatsnew-fr'', ''Bonjour'')])
     ''whatsnew-x'' =
   ([''x/whatsnew-en-US'' \<mapsto> ''Hello'', ''x/whatsnew-fr'' \<mapsto> ''Bonjour''], None)"
proof -
  have j: "filepath_Join [''whatsnew-x'', ''notes.txt''] = ''whatsnew-x/notes.txt''"
    "filepath_Join [''whatsnew-x'', ''whatsnew-en-US''] = ''whatsnew-x/whatsnew-en-US''"
    "filepath_Join [''whatsnew-x'', ''whatsnew-fr''] = ''whatsnew-x/whatsnew-fr''"
    by code_simp+
  have f: "FindStringSubmatch localePattern 3 ''whatsnew-x/whatsnew-en-US'' =
      [''whatsnew-x/whatsnew-en-US'', ''x/whatsnew-en-US'', ''x/whatsnew-en-US'', []]"
    "FindStringSubmatch localePattern 3 ''whatsnew-x/whatsnew-fr'' =
      [''whatsnew-x/whatsnew-fr'', ''x/whatsnew-fr'', ''x/whatsnew-fr'', []]"
    by code_simp+
  show ?thesis
    unfolding readLocalisedRecentChanges_def glob_directoryFS
    by (simp add: j f read_directoryFS)
qed


text \<open>
  Claim C8. When no path matches the glob pattern, \<^verbatim>\<open>readLocalisedRecentChanges\<close> returns
  the empty map and no error. When reading a file whose path matches the locale pattern
  fails, it returns the empty map together with the error of such a file. And whenever it
  returns an error, the map it returns is empty.
\<close>

theorem readLocalisedRecentChanges_empty_or_failed:
  assumes "filepath_Glob fs (filepath_Join [dir, ''whatsnew-*'']) = Inr []"
    and "filepath_Glob fs' (filepath_Join [dir', ''whatsnew-*'']) = Inr paths"
    and "p \<in> set paths" and "length (FindStringSubmatch localePattern 3 p) \<ge> 2"
    and "fileutil_ReadStringFromFile fs' p = Inl e"
  shows "readLocalisedRecentChanges fs dir = (Map.empty, None) \<and>
         (\<exists>q err. q \<in> set paths \<and> length (FindStringSubmatch localePattern 3 q) \<ge> 2 \<and>
            fileutil_ReadStringFromFile fs' q = Inl err \<and>
            readLocalisedRecentChanges fs' dir' = (Map.empty, Some err)) \<and>
         (\<forall>fs'' dir'' err. snd (readLocalisedRecentChanges fs'' dir'') = Some err \<longrightarrow>
            fst (readLocalisedRecentChanges fs'' dir'') = Map.empty)"
proof -
  have "readLocalisedRecentChanges fs dir = (Map.empty, None)"
    by (simp add: readLocalisedRecentChanges_def assms(1))
  moreover have "\<exists>q err. q \<in> set paths \<and> length (FindStringSubmatch localePattern 3 q) \<ge> 2 \<and>
            fileutil_ReadStringFromFile fs' q = Inl err \<and>
            readLocalisedRecentChanges fs' dir' = (Map.empty, Some err)"
    using readRecentChanges_read_fails[OF assms(3,4,5), of Map.empty]
    by (simp add: readLocalisedRecentChanges_def assms(2))
  ultimately show ?thesis
    using readLocalisedRecentChanges_failed_empty by blast
qed

theorem readLocalisedRecentChanges_empty_or_failed_witness:
  "readLocalisedRecentChanges (directoryFS ''notes'' [(''readme.txt'', ''Read me'')]) ''notes'' =
     (Map.empty, None) \<and>
   readLocalisedRecentChanges
     \<lparr>filepath_Glob = (\<lambda>pattern. Inr [''notes/whatsnew-en-US'', ''notes/whatsnew-fr'']),
      fileutil_ReadStringFromFile =
        (\<lambda>path. if path = ''notes/whatsnew-fr'' then Inl ''permission denied'' else Inr ''Hello'')\<rparr>
     ''notes'' = (Map.empty, Some ''permission denied'')"
proof -
  let ?fs = "\<lparr>filepath_Glob = (\<lambda>pattern. Inr [''notes/whatsnew-en-US'', ''notes/whatsnew-fr'']),
      fileutil_ReadStringFromFile =
        (\<lambda>path. if path = ''notes/whatsnew-fr'' then Inl ''permission denied'' else Inr ''Hello'')\<rparr>"
  have g: "filepath_Glob (directoryFS ''notes'' [(''readme.txt'', ''Read me'')])
      (filepath_Join [''notes'', ''whatsnew-*'']) = Inr []"
    by (simp add: glob_directoryFS)
  have g': "filepath_Glob ?fs (filepath_Join [''notes'', ''whatsnew-*'']) =
      Inr [''notes/whatsnew-en-US'', ''notes/whatsnew-fr'']"
    by simp
  have p: "''notes/whatsnew-fr'' \<in> set [''notes/whatsnew-en-US'', ''notes/whatsnew-fr'']"
    by simp
  have m: "length (FindStringSubmatch localePattern 3 ''notes/whatsnew-fr'') \<ge> 2"
    by code_simp
  have r: "fileutil_ReadStringFromFile ?fs ''notes/whatsnew-fr'' = Inl ''permission denied''"
    by simp
  from readLocalisedRecentChanges_empty_or_failed [OF g g' p m r] show ?thesis
    by (auto split: if_splits)
qed

text \<open>
  Claim C10, as stated, fails: in a directory whose path holds no \<^verbatim>\<open>whatsnew-\<close> followed
  by a letter or digit, the file \<^verbatim>\<open>whatsnew-_draft\<close> gives no key at all, and a file whose
  tag holds a line feed, \<^verbatim>\<open>whatsnew-en-GB\<close> followed by a line feed and \<^verbatim>\<open>x\<close>, gives the key
  \<^verbatim>\<open>en-\<close>.
\<close>

theorem readLocalisedRecentChanges_tag_not_key:
  "\<not> hasLocaleStart ''notes'' \<and>
   readLocalisedRecentChanges (directoryFS ''notes'' [(''whatsnew-_draft'', ''Text'')]) ''notes'' =
     (Map.empty, None) \<and>
   readLocalisedRecentChanges
     (directoryFS ''notes'' [(''whatsnew-en-GB'' @ [CHR 0x0A] @ ''x'', ''Text'')]) ''notes'' =
     ([''en-'' \<mapsto> ''Text''], None)"
proof -
  have h: "\<not> hasLocaleStart ''notes''"
    by code_simp
  have j: "filepath_Join [''notes'', ''whatsnew-_draft''] = ''notes/whatsnew-_draft''"
    "filepath_Join [''notes'', ''whatsnew-en-GB'' @ [CHR 0x0A] @ ''x''] =
       ''notes/whatsnew-en-GB'' @ [CHR 0x0A] @ ''x''"
    by code_simp+
  have f: "FindStringSubmatch localePattern 3 ''notes/whatsnew-_draft'' = []"
    "FindStringSubmatch localePattern 3 (''notes/whatsnew-en-GB'' @ [CHR 0x0A] @ ''x'') =
      [''whatsnew-en-'', ''en-'', ''en-'', ''-'']"
    by code_simp+
  have a: "readLocalisedRecentChanges (directoryFS ''notes'' [(''whatsnew-_draft'', ''Text'')])
      ''notes'' = (Map.empty, None)"
    unfolding readLocalisedRecentChanges_def glob_directoryFS
    by (simp add: j f read_directoryFS)
  have b: "readLocalisedRecentChanges
     (directoryFS ''notes'' [(''whatsnew-en-GB'' @ [CHR 0x0A] @ ''x'', ''Text'')]) ''notes'' =
     ([''en-'' \<mapsto> ''Text''], None)"
    unfolding readLocalisedRecentChanges_def glob_directoryFS
    by (simp add: j f read_directoryFS del: append.simps)
  from h a b show ?thesis
    by (simp only: simp_thms)
qed

text \<open>
  Claim C10, amended. The pattern is matched against the whole globbed path and the
  leftmost match counts. For every directory whose path holds no \<^verbatim>\<open>whatsnew-\<close> followed by
  a letter or digit, and whatever other paths the glob returns beside it, each file
  \<^verbatim>\<open>whatsnew-<tag>\<close> whose tag starts with an ASCII letter or digit and holds no line feed
  gives the key \<^verbatim>\<open><tag>\<close>: the pattern captures exactly the tag in the path of the file, and
  when every matched file can be read, no error is returned and the key \<^verbatim>\<open><tag>\<close> is in the
  map, with the content of a globbed file whose path gives that key. In the directory
  \<^verbatim>\<open>whatsnew-x\<close>, whose path holds such a place, the key of the file \<^verbatim>\<open>whatsnew-fr\<close> is
  \<^verbatim>\<open>x/whatsnew-fr\<close>, with text of the directory path.
\<close>

theorem readLocalisedRecentChanges_keys:
  assumes "\<not> hasLocaleStart recentChangesDir"
    and "filepath_Glob fs (filepath_Join [recentChangesDir, ''whatsnew-*'']) = Inr recentChangesPaths"
    and "localeTag tag"
    and "filepath_Join [recentChangesDir, ''whatsnew-'' @ tag] \<in> set recentChangesPaths"
    and "\<forall>path\<in>set recentChangesPaths.
      length (FindStringSubmatch localePattern 3 path) \<ge> 2 \<longrightarrow>
      \<not> isl (fileutil_ReadStringFromFile fs path)"
  shows "FindStringSubmatch localePattern 3 (filepath_Join [recentChangesDir, ''whatsnew-'' @ tag]) =
           [''whatsnew-'' @ tag, tag, tag, []] \<and>
         snd (readLocalisedRecentChanges fs recentChangesDir) = None \<and>
         tag \<in> dom (fst (readLocalisedRecentChanges fs recentChangesDir)) \<and>
         (\<exists>path\<in>set recentChangesPaths. \<exists>content.
            length (FindStringSubmatch localePattern 3 path) \<ge> 2 \<and>
            FindStringSubmatch localePattern 3 path ! 1 = tag \<and>
            fileutil_ReadStringFromFile fs path = Inr content \<and>
            fst (readLocalisedRecentChanges fs recentChangesDir) tag = Some content) \<and>
         hasLocaleStart ''whatsnew-x'' \<and>
         readLocalisedRecentChanges (directoryFS ''whatsnew-x'' [(''whatsnew-fr'', ''Bonjour'')])
           ''whatsnew-x'' = ([''x/whatsnew-fr'' \<mapsto> ''Bonjour''], None)"
proof -
  let ?file = "filepath_Join [recentChangesDir, ''whatsnew-'' @ tag]"
  have r: "readLocalisedRecentChanges fs recentChangesDir =
      readRecentChanges fs recentChangesPaths Map.empty"
    by (simp add: readLocalisedRecentChanges_def assms(2))
  have m: "FindStringSubmatch localePattern 3 ?file = [''whatsnew-'' @ tag, tag, tag, []]"
    using assms(1,3) by (rule FindStringSubmatch_locale_file)
  then have l: "length (FindStringSubmatch localePattern 3 ?file) \<ge> 2"
    and k: "FindStringSubmatch localePattern 3 ?file ! 1 = tag"
    by simp_all
  have e: "snd (readLocalisedRecentChanges fs recentChangesDir) = None"
    unfolding r using assms(5) by (rule readRecentChanges_no_error)
  have x: "\<exists>path\<in>set recentChangesPaths. \<exists>content.
            length (FindStringSubmatch localePattern 3 path) \<ge> 2 \<and>
            FindStringSubmatch localePattern 3 path ! 1 = tag \<and>
            fileutil_ReadStringFromFile fs path = Inr content \<and>
            fst (readLocalisedRecentChanges fs recentChangesDir) tag = Some content"
    unfolding r using assms(5,4) l k by (rule readRecentChanges_key_present)
  then have d: "tag \<in> dom (fst (readLocalisedRecentChanges fs recentChangesDir))"
    by blast
  have h: "hasLocaleStart ''whatsnew-x''"
    by code_simp
  have j: "filepath_Join [''whatsnew-x'', ''whatsnew-fr''] = ''whatsnew-x/whatsnew-fr''"
    by code_simp
  have f: "FindStringSubmatch localePattern 3 ''whatsnew-x/whatsnew-fr'' =
      [''whatsnew-x/whatsnew-fr'', ''x/whatsnew-fr'', ''x/whatsnew-fr'', []]"
    by code_simp
  have b: "readLocalisedRecentChanges (directoryFS ''whatsnew-x'' [(''whatsnew-fr'', ''Bonjour'')])
           ''whatsnew-x'' = ([''x/whatsnew-fr'' \<mapsto> ''Bonjour''], None)"
    unfolding readLocalisedRecentChanges_def glob_directoryFS
    by (simp add: j f read_directoryFS)
  from m e d x h b show ?thesis
    by (simp only: simp_thms)
qed

theorem readLocalisedRecentChanges_keys_witness:
  "fst (readLocalisedRecentChanges
     (directoryFS ''notes''
        [(''whatsnew-_draft'', ''Draft''), (''whatsnew-en-US'', ''Hello''),
         (''whatsnew-fr'', ''Bonjour'')])
     ''notes'') ''en-US'' = Some ''Hello'' \<and>
   snd (readLocalisedRecentChanges
     (directoryFS ''notes''
        [(''whatsnew-_draft'', ''Draft''), (''whatsnew-en-US'', ''Hello''),
         (''whatsnew-fr'', ''Bonjour'')])
     ''notes'') = None"
proof -
  let ?fs = "directoryFS ''notes''
        [(''whatsnew-_draft'', ''Draft''), (''whatsnew-en-US'', ''Hello''),
         (''whatsnew-fr'', ''Bonjour'')]"
  let ?paths = "[''notes/whatsnew-_draft'', ''notes/whatsnew-en-US'', ''notes/whatsnew-fr'']"
  have d: "\<not> hasLocaleStart ''notes''"
    by code_simp
  have j: "filepath_Join [''notes'', ''whatsnew-_draft''] = ''notes/whatsnew-_draft''"
    "filepath_Join [''notes'', ''whatsnew-en-US''] = ''notes/whatsnew-en-US''"
    "filepath_Join [''notes'', ''whatsnew-fr''] = ''notes/whatsnew-fr''"
    by code_simp+
  have f: "FindStringSubmatch localePattern 3 ''notes/whatsnew-_draft'' = []"
    "FindStringSubmatch localePattern 3 ''notes/whatsnew-en-US'' =
       [''whatsnew-en-US'', ''en-US'', ''en-US'', []]"
    "FindStringSubmatch localePattern 3 ''notes/whatsnew-fr'' = [''whatsnew-fr'', ''fr'', ''fr'', []]"
    by code_simp+
  have g: "filepath_Glob ?fs (filepath_Join [''notes'', ''whatsnew-*'']) = Inr ?paths"
    unfolding glob_directoryFS by (simp add: j)
  have t: "localeTag ''en-US''"
    by (simp add: localeTag_def alnum_def)
  have p: "filepath_Join [''notes'', ''whatsnew-'' @ ''en-US''] \<in> set ?paths"
    by (simp add: j)
  have r: "\<forall>path\<in>set ?paths. length (FindStringSubmatch localePattern 3 path) \<ge> 2 \<longrightarrow>
      \<not> isl (fileutil_ReadStringFromFile ?fs path)"
    by (simp add: f read_directoryFS j)
  have c: "fileutil_ReadStringFromFile ?fs ''notes/whatsnew-en-US'' = Inr ''Hello''"
    by (simp add: read_directoryFS j)
  from readLocalisedRecentChanges_keys [OF d g t p r]
  have e: "snd (readLocalisedRecentChanges ?fs ''notes'') = None"
    and "\<exists>path\<in>set ?paths. \<exists>content.
            length (FindStringSubmatch localePattern 3 path) \<ge> 2 \<and>
            FindStringSubmatch localePattern 3 path ! 1 = ''en-US'' \<and>
            fileutil_ReadStringFromFile ?fs path = Inr content \<and>
            fst (readLocalisedRecentChanges ?fs ''notes'') ''en-US'' = Some content"
    by (simp_all only: simp_thms)
  then obtain path content where q: "path \<in> set ?paths"
    "length (FindStringSubmatch localePattern 3 path) \<ge> 2"
    "FindStringSubmatch localePattern 3 path ! 1 = ''en-US''"
    "fileutil_ReadStringFromFile ?fs path = Inr content"
    "fst (readLocalisedRecentChanges ?fs ''notes'') ''en-US'' = Some content"
    by blast
  from q(1,2,3) have "path = ''notes/whatsnew-en-US''"
    by (auto simp: f)
  with q(4) c have "content = ''Hello''"
    by simp
  with q(5) e show ?thesis
    by simp
qed


end
